(* ===== verification/Prelude.thy ===== *)
theory Prelude
  imports "HOL-Library.Word"
begin

text \<open>
  Shared vocabulary of the development: the C types of the program, the outcome of a
  run of C code, and the generic lemmas on words, lists and numbers that the component
  theories use.

  A run of a piece of C code ends in one of three ways. It returns a value; it meets
  undefined behaviour (\<open>Undef\<close>, with the kind of misuse); or it has not finished within
  the number of steps or the input the run was given (\<open>Unfinished\<close>). A loop or recursion
  of the source that has no bound of its own takes a number of steps as its first
  argument, and every such definition comes with a lemma that says how many are enough,
  or that no number is.
\<close>

section \<open>Types\<close>

type_synonym size_t = "64 word"

text \<open>A pointer to a C string or to bytes: \<open>None\<close> is NULL, \<open>Some s\<close> is the object from the
  address the pointer holds up to the end of the object.\<close>

type_synonym char_ptr = "string option"

datatype ub =
    Null_Deref            \<comment> \<open>a NULL pointer is dereferenced or given to a string function\<close>
  | Out_Of_Bounds         \<comment> \<open>memory outside an object is read or written\<close>
  | Double_Free           \<comment> \<open>a block that is not allocated is freed\<close>
  | Uninit_Read           \<comment> \<open>an object is read before anything was stored in it\<close>
  | Out_Of_Range          \<comment> \<open>a number is converted to a type that cannot hold it\<close>

datatype 'a outcome = Ret 'a | Undef ub | Unfinished

fun obind :: "'a outcome \<Rightarrow> ('a \<Rightarrow> 'b outcome) \<Rightarrow> 'b outcome" where
  "obind (Ret a) f = f a"
| "obind (Undef u) f = Undef u"
| "obind Unfinished f = Unfinished"

definition returns :: "'a outcome \<Rightarrow> ('a \<Rightarrow> bool) \<Rightarrow> bool" where
  "returns m Q = (case m of Ret a \<Rightarrow> Q a | Undef u \<Rightarrow> False | Unfinished \<Rightarrow> False)"

lemma returns_Ret [simp]: "returns (Ret a) Q = Q a"
  and returns_Undef [simp]: "returns (Undef u) Q = False"
  and returns_Unfinished [simp]: "returns Unfinished Q = False"
  by (simp_all add: returns_def)

lemma returns_obind [simp]: "returns (obind m f) Q = returns m (\<lambda>a. returns (f a) Q)"
  by (cases m) simp_all

lemma returns_mono: "returns m P \<Longrightarrow> (\<And>a. P a \<Longrightarrow> Q a) \<Longrightarrow> returns m Q"
  by (cases m) simp_all

lemma returnsE:
  assumes "returns m Q"
  obtains a where "m = Ret a" and "Q a"
  using assms by (cases m) simp_all

section \<open>Named collections\<close>

named_theorems wp_simps \<open>weakest preconditions of the statements and of the primitive operations\<close>
named_theorems frame_simps \<open>what an operation leaves unchanged\<close>

section \<open>Words\<close>

lemma unat_add_small: "unat (a :: size_t) + unat b < 2 ^ 64 \<Longrightarrow> unat (a + b) = unat a + unat b"
  by (simp add: unat_word_ariths)

lemma unat_size_t_less [simp]: "unat (a :: size_t) < 18446744073709551616"
  using unsigned_less [of a] by simp

lemma unat_size_t_lt: "unat (a :: size_t) < 2 ^ 64"
  using unsigned_less [of a] by simp

lemma unat_le_lt: "n \<le> unat (a :: size_t) \<Longrightarrow> n < 2 ^ 64"
  by (erule le_less_trans) (rule unat_size_t_lt)

lemma unat_size_t_max [simp]: "unat (- 1 :: size_t) = 18446744073709551615"
  by (simp add: unsigned_minus_1_eq_mask mask_eq_exp_minus_1)

lemma unat_of_nat_small: "n < 2 ^ 64 \<Longrightarrow> unat (of_nat n :: size_t) = n"
  by (simp add: unat_of_nat take_bit_nat_eq_self)

lemma unat_add_of_nat:
  "unat (a :: size_t) + n < 2 ^ 64 \<Longrightarrow> unat (a + of_nat n) = unat a + n"
  by (subst unat_add_small) (simp_all add: unat_of_nat_small)

lemma unat_diff_le: "(b :: size_t) \<le> a \<Longrightarrow> unat (a - b) = unat a - unat b"
  by (rule unat_sub)

section \<open>Lists\<close>

definition overwrite :: "'a list \<Rightarrow> nat \<Rightarrow> 'a list \<Rightarrow> 'a list" where
  "overwrite xs i ys = take i xs @ ys @ drop (i + length ys) xs"

lemma length_overwrite [simp]: "i + length ys \<le> length xs \<Longrightarrow> length (overwrite xs i ys) = length xs"
  by (simp add: overwrite_def)

lemma take_overwrite [simp]:
  "i + length ys \<le> length xs \<Longrightarrow> take (i + length ys) (overwrite xs i ys) = take i xs @ ys"
  by (simp add: overwrite_def)

lemma take_overwrite_prefix:
  "i + length ys \<le> length xs \<Longrightarrow> n \<le> length ys \<Longrightarrow> take (i + n) (overwrite xs i ys) = take i xs @ take n ys"
  by (simp add: overwrite_def)

text \<open>Storing bytes in an object from index \<open>i\<close> on; storing nothing is always allowed.\<close>

definition mem_write :: "'a list \<Rightarrow> nat \<Rightarrow> 'a list \<Rightarrow> 'a list outcome" where
  "mem_write xs i ys =
     (if ys = [] then Ret xs
      else if i + length ys \<le> length xs then Ret (overwrite xs i ys)
      else Undef Out_Of_Bounds)"

lemma mem_write_ok: "i + length ys \<le> length xs \<Longrightarrow> mem_write xs i ys = Ret (overwrite xs i ys)"
  by (simp add: mem_write_def overwrite_def)

lemma takeWhile_all: "(\<And>x. x \<in> set xs \<Longrightarrow> P x) \<Longrightarrow> takeWhile P xs = xs"
  by (induction xs) auto

lemma nth_length_takeWhile_less: "i < length (takeWhile P xs) \<Longrightarrow> P (xs ! i)"
  using nth_mem [of i "takeWhile P xs"] by (auto simp: takeWhile_nth dest: set_takeWhileD)

lemma takeWhile_append_stop: "(\<And>x. x \<in> set xs \<Longrightarrow> P x) \<Longrightarrow> \<not> P y \<Longrightarrow> takeWhile P (xs @ y # ys) = xs"
  by (induction xs) auto

end
