(* ===== verification/Machine.thy ===== *)
theory Machine
  imports Prelude
begin

text \<open>
  The machine the server runs on: what the operating system and the libraries outside
  the repository answer (\<open>env\<close>), the state of the process that the code changes
  (\<open>world\<close>), and programs over the two. A C function that touches the heap, a file
  descriptor, the log or the clock is a \<open>prog\<close>; its calls are put in sequence with \<open>bind\<close>
  in the order of the C statements, and its early returns are branches that end in
  \<open>return\<close>. The weakest precondition \<open>wp\<close> says that a program returns, without undefined
  behaviour, in a state with a given property; it is total correctness.
\<close>

section \<open>What the environment answers\<close>

datatype errno = EINTR | EAGAIN | EWOULDBLOCK | EOTHER

text \<open>The events a file descriptor delivers to \<open>read\<close>, in order: bytes that arrive together,
  the end of the stream, or an error. \<open>Bytes []\<close> is a read that returns 0, as \<open>Eof\<close> is.\<close>

datatype rd = Bytes string | Eof | Fail errno

datatype read_result = Got string | Err errno

text \<open>The bytes a list of events delivers, up to the end of the stream.\<close>

fun stream :: "rd list \<Rightarrow> string" where
  "stream [] = []"
| "stream (Bytes s # es) = s @ stream es"
| "stream (Fail e # es) = stream es"
| "stream (Eof # es) = []"

text \<open>The interface of picohttpparser (a git submodule, not part of the repository): the
  pointers it returns point into the request buffer and are given as offsets.\<close>

record phr_header =
  hname :: nat
  hname_len :: nat
  hvalue :: nat
  hvalue_len :: nat

record phr_result =
  phr_ret :: int
  phr_method :: nat
  phr_method_len :: nat
  phr_path :: nat
  phr_path_len :: nat
  phr_minor_version :: int
  phr_headers :: "phr_header list"
  phr_num_headers :: nat

text \<open>The interface of libconfuse: the values the configuration file gives to the options,
  \<open>None\<close> for an option the file does not set.\<close>

datatype cfg_status = CFG_SUCCESS | CFG_FILE_ERROR | CFG_PARSE_ERROR

record cfg_result =
  cfg_status :: cfg_status
  cfg_str :: "string \<Rightarrow> string option"
  cfg_int :: "string \<Rightarrow> int option"

text \<open>
  The \<open>k\<close>-th allocation succeeds or not, the \<open>k\<close>-th \<open>send\<close> is refused (\<open>None\<close>) or accepts a
  number of bytes, the \<open>k\<close>-th of the other fallible system calls succeeds or not; \<open>now k\<close>
  and \<open>stat_of k\<close> are the answers of \<open>time\<close> and \<open>stat\<close> when they are call number \<open>k\<close>, and \<open>wait_status k\<close> is the
  status \<open>wait\<close> stores. \<open>file_at\<close> is the content of the file a name opens for reading, and
  \<open>script_run\<close> the events a script, given its interpreter, its name, its input and its time limit, leaves
  on the pipe that is its output.
  \<open>junk\<close> is what memory holds before anything is stored in it.
\<close>

record env =
  malloc_ok :: "nat \<Rightarrow> bool"
  junk :: "nat \<Rightarrow> char"
  send_ret :: "nat \<Rightarrow> nat option"
  call_ok :: "nat \<Rightarrow> bool"
  now :: "nat \<Rightarrow> int"
  access_ok :: "string \<Rightarrow> bool"
  file_at :: "string \<Rightarrow> string option"
  stat_of :: "nat \<Rightarrow> string \<Rightarrow> (int \<times> int) option"   \<comment> \<open>size and modification time\<close>
  script_run :: "string \<Rightarrow> string \<Rightarrow> string \<Rightarrow> int \<Rightarrow> rd list"
  wait_status :: "nat \<Rightarrow> int"
  phr_parse_request :: "string \<Rightarrow> nat \<Rightarrow> nat \<Rightarrow> phr_result"
  cfg_parse :: "string \<Rightarrow> cfg_result"
  run_from_systemd :: bool
  ctime :: "nat \<Rightarrow> string"

section \<open>The state of the process\<close>

text \<open>Calls with an effect outside the process, or on its threads, in the order they are made.\<close>

datatype os_event =
    Sent int string                      \<comment> \<open>descriptor, bytes the kernel accepted\<close>
  | Written int string
  | Closed int
  | Timeout_Set int nat
  | Forked string string int             \<comment> \<open>interpreter, script, alarm in seconds (0: none)\<close>
  | Killed
  | Waited
  | Thread_Created nat
  | Thread_Cancelled nat
  | Thread_Signalled nat
  | Thread_Joined nat
  | Watcher_Created
  | Watcher_Cancelled
  | Mutex_Destroyed nat

record world =
  n_malloc :: nat            \<comment> \<open>allocations asked for so far; also the next block's name\<close>
  live :: "nat set"          \<comment> \<open>blocks allocated and not freed\<close>
  next_fd :: int
  open_fds :: "int set"
  pending :: "int \<Rightarrow> rd list"
  n_send :: nat
  n_calls :: nat
  trace :: "os_event list"
  log_limit :: int
  log_out :: "(bool \<times> string) list"    \<comment> \<open>lines written to stderr (True) or stdout\<close>

section \<open>Programs\<close>

type_synonym 'a prog = "env \<Rightarrow> world \<Rightarrow> ('a \<times> world) outcome"

definition return :: "'a \<Rightarrow> 'a prog" where
  "return a = (\<lambda>E w. Ret (a, w))"

definition bind :: "'a prog \<Rightarrow> ('a \<Rightarrow> 'b prog) \<Rightarrow> 'b prog" where
  "bind m f = (\<lambda>E w. obind (m E w) (\<lambda>(a, w'). f a E w'))"

definition undef :: "ub \<Rightarrow> 'a prog" where
  "undef u = (\<lambda>E w. Undef u)"

definition unfinished :: "'a prog" where
  "unfinished = (\<lambda>E w. Unfinished)"

definition lift :: "'a outcome \<Rightarrow> 'a prog" where
  "lift m = (\<lambda>E w. obind m (\<lambda>a. Ret (a, w)))"

definition asks :: "(env \<Rightarrow> 'a) \<Rightarrow> 'a prog" where
  "asks f = (\<lambda>E w. Ret (f E, w))"

definition modify :: "(world \<Rightarrow> world) \<Rightarrow> unit prog" where
  "modify f = (\<lambda>E w. Ret ((), f w))"

text \<open>The monad laws, for the reader and for rewriting sequences of calls.\<close>

lemma bind_return: "bind (return a) f = f a"
  by (simp add: bind_def return_def fun_eq_iff)

lemma bind_return_right: "bind m return = m"
proof (intro ext)
  fix E w
  show "bind m return E w = m E w"
    by (cases "m E w") (auto simp: bind_def return_def)
qed

lemma bind_assoc: "bind (bind m f) g = bind m (\<lambda>a. bind (f a) g)"
proof (intro ext)
  fix E w
  show "bind (bind m f) g E w = bind m (\<lambda>a. bind (f a) g) E w"
    by (cases "m E w") (auto simp: bind_def)
qed

section \<open>Weakest preconditions\<close>

definition wp :: "'a prog \<Rightarrow> ('a \<Rightarrow> world \<Rightarrow> bool) \<Rightarrow> env \<Rightarrow> world \<Rightarrow> bool" where
  "wp m Q E w = returns (m E w) (\<lambda>(a, w'). Q a w')"

lemma wp_return [simp]: "wp (return a) Q E w = Q a w"
  by (simp add: wp_def return_def)

lemma wp_bind [simp]: "wp (bind m f) Q E w = wp m (\<lambda>a w'. wp (f a) Q E w') E w"
  by (simp add: wp_def bind_def split_beta')

lemma wp_undef [simp]: "\<not> wp (undef u) Q E w"
  by (simp add: wp_def undef_def)

lemma wp_unfinished [simp]: "\<not> wp unfinished Q E w"
  by (simp add: wp_def unfinished_def)

lemma wp_lift [simp]: "wp (lift m) Q E w = returns m (\<lambda>a. Q a w)"
  by (simp add: wp_def lift_def)

lemma wp_asks [simp]: "wp (asks f) Q E w = Q (f E) w"
  by (simp add: wp_def asks_def)

lemma wp_modify [simp]: "wp (modify f) Q E w = Q () (f w)"
  by (simp add: wp_def modify_def)

lemma wp_if [simp]:
  "wp (if b then m else n) Q E w = (if b then wp m Q E w else wp n Q E w)"
  by simp

lemma wp_case_option [simp]:
  "wp (case x of None \<Rightarrow> m | Some y \<Rightarrow> f y) Q E w = (case x of None \<Rightarrow> wp m Q E w | Some y \<Rightarrow> wp (f y) Q E w)"
  by (simp split: option.split)

lemma wp_case_prod [simp]:
  "wp (case p of (a, b) \<Rightarrow> f a b) Q E w = (case p of (a, b) \<Rightarrow> wp (f a b) Q E w)"
  by (simp split: prod.split)

lemma wp_let [simp]: "wp (let x = a in f x) Q E w = wp (f a) Q E w"
  by (simp add: Let_def)

lemma wp_mono: "wp m P E w \<Longrightarrow> (\<And>a w'. P a w' \<Longrightarrow> Q a w') \<Longrightarrow> wp m Q E w"
  by (auto simp: wp_def elim: returns_mono)

lemma wpE:
  assumes "wp m Q E w"
  obtains a w' where "m E w = Ret (a, w')" and "Q a w'"
  using assms unfolding wp_def by (elim returnsE) auto

lemma wp_Ret: "m E w = Ret (a, w') \<Longrightarrow> wp m Q E w = Q a w'"
  by (simp add: wp_def)

lemma wp_fun_if [wp_simps]:
  "wp ((if b then f else g) x) Q E w = (if b then wp (f x) Q E w else wp (g x) Q E w)"
  by simp

section \<open>Memory\<close>

definition malloc :: "nat option prog" where
  "malloc = (\<lambda>E w. let k = n_malloc w in
     if malloc_ok E k
     then Ret (Some k, w\<lparr>n_malloc := Suc k, live := insert k (live w)\<rparr>)
     else Ret (None, w\<lparr>n_malloc := Suc k\<rparr>))"

definition realloc :: "nat \<Rightarrow> nat option prog" where
  "realloc p = (\<lambda>E w. let k = n_malloc w in
     if p \<notin> live w then Undef Double_Free
     else if malloc_ok E k
     then Ret (Some k, w\<lparr>n_malloc := Suc k, live := insert k (live w - {p})\<rparr>)
     else Ret (None, w\<lparr>n_malloc := Suc k\<rparr>))"

definition free :: "nat \<Rightarrow> unit prog" where
  "free p = (\<lambda>E w. if p \<in> live w then Ret ((), w\<lparr>live := live w - {p}\<rparr>) else Undef Double_Free)"

lemma wp_malloc [wp_simps]:
  "wp malloc Q E w =
     (if malloc_ok E (n_malloc w)
      then Q (Some (n_malloc w)) (w\<lparr>n_malloc := Suc (n_malloc w), live := insert (n_malloc w) (live w)\<rparr>)
      else Q None (w\<lparr>n_malloc := Suc (n_malloc w)\<rparr>))"
  by (simp add: wp_def malloc_def Let_def)

lemma wp_realloc [wp_simps]:
  "wp (realloc p) Q E w =
     (p \<in> live w \<and>
      (if malloc_ok E (n_malloc w)
       then Q (Some (n_malloc w))
              (w\<lparr>n_malloc := Suc (n_malloc w), live := insert (n_malloc w) (live w - {p})\<rparr>)
       else Q None (w\<lparr>n_malloc := Suc (n_malloc w)\<rparr>)))"
  by (simp add: wp_def realloc_def Let_def)

lemma wp_free [wp_simps]: "wp (free p) Q E w = (p \<in> live w \<and> Q () (w\<lparr>live := live w - {p}\<rparr>))"
  by (simp add: wp_def free_def)

text \<open>Blocks are named by the number of the allocation, so a new block is fresh as long as no
  block carries a later number.\<close>

definition heap_ok :: "world \<Rightarrow> bool" where
  "heap_ok w \<longleftrightarrow> (\<forall>p \<in> live w. p < n_malloc w)"

lemma heap_ok_fresh: "heap_ok w \<Longrightarrow> n_malloc w \<notin> live w"
  by (auto simp: heap_ok_def)

text \<open>The fresh part of a block: the bytes from index \<open>i\<close> on hold what the memory held.\<close>

definition fresh_bytes :: "env \<Rightarrow> nat \<Rightarrow> nat \<Rightarrow> string" where
  "fresh_bytes E i n = map (junk E) [i ..< i + n]"

lemma length_fresh_bytes [simp]: "length (fresh_bytes E i n) = n"
  by (simp add: fresh_bytes_def)

section \<open>System calls\<close>

definition emit :: "os_event \<Rightarrow> unit prog" where
  "emit e = modify (\<lambda>w. w\<lparr>trace := trace w @ [e]\<rparr>)"

text \<open>A fallible call other than an allocation and \<open>send\<close>.\<close>

definition sys_call :: "bool prog" where
  "sys_call = (\<lambda>E w. Ret (call_ok E (n_calls w), w\<lparr>n_calls := Suc (n_calls w)\<rparr>))"

definition sys_time :: "int prog" where
  "sys_time = (\<lambda>E w. Ret (now E (n_calls w), w\<lparr>n_calls := Suc (n_calls w)\<rparr>))"

definition sys_stat :: "string \<Rightarrow> (int \<times> int) option prog" where
  "sys_stat filename = (\<lambda>E w. Ret (stat_of E (n_calls w) filename, w\<lparr>n_calls := Suc (n_calls w)\<rparr>))"

definition sys_wait :: "int prog" where
  "sys_wait = (\<lambda>E w. Ret (wait_status E (n_calls w), w\<lparr>n_calls := Suc (n_calls w), trace := trace w @ [Waited]\<rparr>))"

definition sys_close :: "int \<Rightarrow> unit prog" where
  "sys_close fd = modify (\<lambda>w. w\<lparr>open_fds := open_fds w - {fd}, trace := trace w @ [Closed fd]\<rparr>)"

definition new_fd :: "int prog" where
  "new_fd = (\<lambda>E w. Ret (next_fd w, w\<lparr>next_fd := next_fd w + 1, open_fds := insert (next_fd w) (open_fds w)\<rparr>))"

text \<open>\<open>set_pending fd es\<close> leaves the events \<open>es\<close> on \<open>fd\<close>. \<open>read\<close> takes at most \<open>n\<close> bytes and
  leaves the others; it blocks when nothing is pending,
  and a run that would block for ever is not finished.\<close>

definition set_pending :: "int \<Rightarrow> rd list \<Rightarrow> world \<Rightarrow> world" where
  "set_pending fd es w = w\<lparr>pending := (pending w)(fd := es)\<rparr>"

definition sys_read :: "int \<Rightarrow> nat \<Rightarrow> read_result prog" where
  "sys_read fd n = (\<lambda>E w.
     if n = 0 then Ret (Got [], w)
     else case pending w fd of
       [] \<Rightarrow> Unfinished
     | Bytes s # rs \<Rightarrow>
         if length s \<le> n then Ret (Got s, set_pending fd rs w)
         else Ret (Got (take n s), set_pending fd (Bytes (drop n s) # rs) w)
     | Eof # rs \<Rightarrow> Ret (Got [], w)
     | Fail e # rs \<Rightarrow> Ret (Err e, set_pending fd rs w))"

lemma set_pending_sel [simp]:
  "pending (set_pending fd es w) fd' = (if fd' = fd then es else pending w fd')"
  "n_malloc (set_pending fd es w) = n_malloc w"
  "live (set_pending fd es w) = live w"
  "next_fd (set_pending fd es w) = next_fd w"
  "open_fds (set_pending fd es w) = open_fds w"
  "n_send (set_pending fd es w) = n_send w"
  "n_calls (set_pending fd es w) = n_calls w"
  "trace (set_pending fd es w) = trace w"
  "log_limit (set_pending fd es w) = log_limit w"
  "log_out (set_pending fd es w) = log_out w"
  by (simp_all add: set_pending_def)

lemma set_pending_twice [simp]: "set_pending fd es (set_pending fd es' w) = set_pending fd es w"
  by (simp add: set_pending_def)

lemma set_pending_id [simp]: "pending w fd = es \<Longrightarrow> set_pending fd es w = w"
  by (intro world.equality) (auto simp: set_pending_def)

lemma wp_emit [wp_simps]: "wp (emit e) Q E w = Q () (w\<lparr>trace := trace w @ [e]\<rparr>)"
  by (simp add: emit_def)

lemma wp_sys_call [wp_simps]:
  "wp sys_call Q E w = Q (call_ok E (n_calls w)) (w\<lparr>n_calls := Suc (n_calls w)\<rparr>)"
  by (simp add: wp_def sys_call_def)

lemma wp_sys_time [wp_simps]:
  "wp sys_time Q E w = Q (now E (n_calls w)) (w\<lparr>n_calls := Suc (n_calls w)\<rparr>)"
  by (simp add: wp_def sys_time_def)

lemma wp_sys_stat [wp_simps]:
  "wp (sys_stat f) Q E w = Q (stat_of E (n_calls w) f) (w\<lparr>n_calls := Suc (n_calls w)\<rparr>)"
  by (simp add: wp_def sys_stat_def)

lemma wp_sys_wait [wp_simps]:
  "wp sys_wait Q E w =
     Q (wait_status E (n_calls w)) (w\<lparr>n_calls := Suc (n_calls w), trace := trace w @ [Waited]\<rparr>)"
  by (simp add: wp_def sys_wait_def)

lemma wp_sys_close [wp_simps]:
  "wp (sys_close fd) Q E w = Q () (w\<lparr>open_fds := open_fds w - {fd}, trace := trace w @ [Closed fd]\<rparr>)"
  by (simp add: sys_close_def)

lemma wp_new_fd [wp_simps]:
  "wp new_fd Q E w =
     Q (next_fd w) (w\<lparr>next_fd := next_fd w + 1, open_fds := insert (next_fd w) (open_fds w)\<rparr>)"
  by (simp add: wp_def new_fd_def)

section \<open>What a program with no effect beyond memory and the log keeps\<close>

text \<open>Everything but the heap and the log: \<open>rest\<close> of two states is equal when a program between
  them only allocated, freed and logged.\<close>

definition rest :: "world \<Rightarrow> world" where
  "rest w = w\<lparr>n_malloc := 0, live := {}, log_out := []\<rparr>"

lemma rest_upd [simp]:
  "rest (w\<lparr>n_malloc := n\<rparr>) = rest w"
  "rest (w\<lparr>live := L\<rparr>) = rest w"
  "rest (w\<lparr>log_out := ls\<rparr>) = rest w"
  by (simp_all add: rest_def)

lemma rest_sel [simp]:
  "next_fd (rest w) = next_fd w"
  "open_fds (rest w) = open_fds w"
  "pending (rest w) = pending w"
  "n_send (rest w) = n_send w"
  "n_calls (rest w) = n_calls w"
  "trace (rest w) = trace w"
  "log_limit (rest w) = log_limit w"
  by (simp_all add: rest_def)

lemma rest_eqD:
  assumes "rest w = rest w'"
  shows "next_fd w = next_fd w'" "open_fds w = open_fds w'" "pending w = pending w'"
    "n_send w = n_send w'" "n_calls w = n_calls w'" "trace w = trace w'" "log_limit w = log_limit w'"
  using assms by (metis rest_sel)+

lemma rest_set_pending [simp]: "rest (set_pending fd es w) = set_pending fd es (rest w)"
  by (simp add: rest_def set_pending_def)

lemma set_pending_log: "set_pending fd es (w\<lparr>log_out := l\<rparr>) = (set_pending fd es w)\<lparr>log_out := l\<rparr>"
  by (simp add: set_pending_def)

lemma log_same: "\<exists>l. w = w\<lparr>log_out := l\<rparr>"
  by (rule exI [of _ "log_out w"]) simp

end
