(* ===== verification/Logging.thy ===== *)
theory Logging
  imports Machine
begin

text \<open>
  The logger, srclib/logging/logging.c: priorities, the limit below which messages are
  written, and the five print functions. A line goes to stderr or stdout; the state it
  changes is \<open>log_out\<close>, and the limit is \<open>log_limit\<close>. The arguments of a format string are not
  expanded: a message is kept as its format. The text \<open>ctime\<close> returns is the environment's.
\<close>

section \<open>Priorities\<close>

text \<open>The values of <syslog.h>.\<close>

definition LOG_CRIT :: int where [simp]: "LOG_CRIT = 2"
definition LOG_ERR :: int where [simp]: "LOG_ERR = 3"
definition LOG_WARNING :: int where [simp]: "LOG_WARNING = 4"
definition LOG_INFO :: int where [simp]: "LOG_INFO = 6"
definition LOG_DEBUG :: int where [simp]: "LOG_DEBUG = 7"

text \<open>The initial value of the global variable \<open>log_limit\<close>.\<close>

definition initial_log_limit :: int where
  "initial_log_limit = LOG_DEBUG"

definition get_priority_name :: "int \<Rightarrow> string" where
  "get_priority_name priority =
     (if priority = LOG_CRIT then ''CRITICAL''
      else if priority = LOG_ERR then ''ERROR''
      else if priority = LOG_WARNING then ''WARNING''
      else if priority = LOG_INFO then ''INFO''
      else if priority = LOG_DEBUG then ''DEBUG''
      else ''UNKNOWN'')"

abbreviation newline :: char where "newline \<equiv> CHR 0x0A"

text \<open>The loop of \<open>get_time\<close>: the string ends at its first newline.\<close>

fun get_time :: "string \<Rightarrow> string" where
  "get_time [] = []"
| "get_time (c # iterator) = (if c = newline then [] else c # get_time iterator)"

section \<open>Writing a line\<close>

definition log_prefix :: "bool \<Rightarrow> string \<Rightarrow> int \<Rightarrow> string" where
  "log_prefix systemd time_str priority =
     (if systemd then get_priority_name priority @ '': ''
      else ''['' @ get_time time_str @ ''] '' @ get_priority_name priority @ '': '')"

definition print_priority :: "int \<Rightarrow> bool \<Rightarrow> string \<Rightarrow> unit prog" where
  "print_priority priority use_stderr format = (\<lambda>E w.
     if priority > log_limit w then Ret ((), w)
     else Ret ((), w\<lparr>log_out := log_out w @
            [(use_stderr,
              log_prefix (run_from_systemd E) (ctime E (length (log_out w))) priority @ format @ [newline])]\<rparr>))"

definition print_critical :: "string \<Rightarrow> unit prog" where
  "print_critical format = print_priority LOG_CRIT True format"

definition print_error :: "string \<Rightarrow> unit prog" where
  "print_error format = print_priority LOG_ERR True format"

definition print_warning :: "string \<Rightarrow> unit prog" where
  "print_warning format = print_priority LOG_WARNING False format"

definition print_info :: "string \<Rightarrow> unit prog" where
  "print_info format = print_priority LOG_INFO False format"

definition print_debug :: "string \<Rightarrow> unit prog" where
  "print_debug format = print_priority LOG_DEBUG False format"

definition set_logging_limit :: "int \<Rightarrow> unit prog" where
  "set_logging_limit priority = modify (\<lambda>w. w\<lparr>log_limit := priority\<rparr>)"

section \<open>The rest of the program only needs to know that logging returns and keeps everything else\<close>

definition logged :: "int \<Rightarrow> bool \<Rightarrow> string \<Rightarrow> env \<Rightarrow> world \<Rightarrow> (bool \<times> string) list" where
  "logged priority use_stderr format E w =
     (if priority > log_limit w then log_out w
      else log_out w @
        [(use_stderr,
          log_prefix (run_from_systemd E) (ctime E (length (log_out w))) priority @ format @ [newline])])"

lemma wp_print_priority [wp_simps]:
  "wp (print_priority p b s) Q E w = Q () (w\<lparr>log_out := logged p b s E w\<rparr>)"
  by (simp add: wp_def print_priority_def logged_def)

lemma print_error_result: "print_error s E w = Ret ((), w\<lparr>log_out := logged LOG_ERR True s E w\<rparr>)"
  by (simp add: print_error_def print_priority_def logged_def)

lemma wp_print [wp_simps]:
  "wp (print_critical s) Q E w = Q () (w\<lparr>log_out := logged LOG_CRIT True s E w\<rparr>)"
  "wp (print_error s) Q E w = Q () (w\<lparr>log_out := logged LOG_ERR True s E w\<rparr>)"
  "wp (print_warning s) Q E w = Q () (w\<lparr>log_out := logged LOG_WARNING False s E w\<rparr>)"
  "wp (print_info s) Q E w = Q () (w\<lparr>log_out := logged LOG_INFO False s E w\<rparr>)"
  "wp (print_debug s) Q E w = Q () (w\<lparr>log_out := logged LOG_DEBUG False s E w\<rparr>)"
  by (simp_all only: print_critical_def print_error_def print_warning_def print_info_def
        print_debug_def wp_print_priority)

lemma wp_set_logging_limit [wp_simps]:
  "wp (set_logging_limit p) Q E w = Q () (w\<lparr>log_limit := p\<rparr>)"
  by (simp add: set_logging_limit_def)

lemma get_time_no_newline: "newline \<notin> set (get_time s)"
  by (induction s) auto

lemma get_priority_name_no_newline: "newline \<notin> set (get_priority_name p)"
  by (simp add: get_priority_name_def)

lemma log_prefix_no_newline: "newline \<notin> set (log_prefix b t p)"
  by (simp add: log_prefix_def get_priority_name_no_newline get_time_no_newline)

section \<open>Properties\<close>



end
