(* ===== verification/Cstring.thy ===== *)
theory Cstring
  imports Machine
begin

text \<open>
  Strings: srclib/string/string.c (a pointer with a size) and the functions of <string.h>
  and <stdio.h> the server calls. A \<open>const char *\<close> is the bytes from the address up to the
  end of the object; the C string it denotes ends before the first NUL. A terminator that is the
  last byte of its object may be left out: literals are written without it.
\<close>

section \<open>C strings\<close>

abbreviation NUL :: char where "NUL \<equiv> CHR 0x00"

abbreviation CRLF :: string where "CRLF \<equiv> [CHR 0x0D, CHR 0x0A]"

definition cstr :: "string \<Rightarrow> string" where
  "cstr s = takeWhile (\<lambda>c. c \<noteq> NUL) s"

definition no_nul :: "string \<Rightarrow> bool" where
  "no_nul s \<longleftrightarrow> NUL \<notin> set s"

lemma cstr_no_nul [simp]: "no_nul s \<Longrightarrow> cstr s = s"
  by (auto simp: cstr_def no_nul_def intro: takeWhile_all)

lemma no_nul_cstr [simp]: "no_nul (cstr s)"
  by (auto simp: cstr_def no_nul_def dest: set_takeWhileD)

lemma cstr_cstr [simp]: "cstr (cstr s) = cstr s"
  by simp

lemma no_nul_simps [simp]:
  "no_nul []"
  "no_nul (c # s) \<longleftrightarrow> c \<noteq> NUL \<and> no_nul s"
  "no_nul (s @ t) \<longleftrightarrow> no_nul s \<and> no_nul t"
  by (auto simp: no_nul_def)

lemma no_nul_subset: "no_nul s \<Longrightarrow> set t \<subseteq> set s \<Longrightarrow> no_nul t"
  by (auto simp: no_nul_def)

lemma no_nul_take: "no_nul s \<Longrightarrow> no_nul (take n s)"
  by (rule no_nul_subset) (auto dest: in_set_takeD)

lemma cstr_append_no_nul: "no_nul s \<Longrightarrow> cstr (s @ t) = s @ cstr t"
  by (induction s) (auto simp: cstr_def)

lemma cstr_Nil [simp]: "cstr [] = []"
  by (simp add: cstr_def)

lemma cstr_Cons [simp]: "cstr (c # s) = (if c = NUL then [] else c # cstr s)"
  by (simp add: cstr_def)

lemma length_cstr: "length (cstr s) \<le> length s"
  by (simp add: cstr_def length_takeWhile_le)

definition deref :: "char_ptr \<Rightarrow> string outcome" where
  "deref p = (case p of None \<Rightarrow> Undef Null_Deref | Some s \<Rightarrow> Ret s)"

lemma deref_simps [simp]: "deref None = Undef Null_Deref" "deref (Some s) = Ret s"
  by (simp_all add: deref_def)

definition strlen :: "char_ptr \<Rightarrow> nat outcome" where
  "strlen p = obind (deref p) (\<lambda>s. Ret (length (cstr s)))"

text \<open>\<open>strcmp(p, q) == 0\<close>.\<close>

definition strcmp_eq :: "char_ptr \<Rightarrow> char_ptr \<Rightarrow> bool outcome" where
  "strcmp_eq p q = obind (deref p) (\<lambda>s. obind (deref q) (\<lambda>t. Ret (cstr s = cstr t)))"

text \<open>The \<open>n\<close> bytes \<open>strncpy\<close> stores: the source up to its NUL, padded with NULs. Without a NUL
  among the first \<open>n\<close> bytes, those bytes have to exist.\<close>

definition strncpy :: "char_ptr \<Rightarrow> nat \<Rightarrow> string outcome" where
  "strncpy src n = obind (deref src) (\<lambda>s.
     if length s < n \<and> NUL \<notin> set s then Undef Out_Of_Bounds
     else Ret (let t = take n (cstr s) in t @ replicate (n - length t) NUL))"

text \<open>What \<open>snprintf\<close> stores in a buffer of \<open>n\<close> bytes for the text \<open>s\<close>, the NUL included.\<close>

definition snprintf_bytes :: "nat \<Rightarrow> string \<Rightarrow> string" where
  "snprintf_bytes n s = take (n - 1) s @ [NUL]"

section \<open>Decimal numbers\<close>

definition digit :: "nat \<Rightarrow> char" where
  "digit d = char_of (48 + d)"

fun dec :: "nat \<Rightarrow> string" where
  "dec n = (if n < 10 then [digit n] else dec (n div 10) @ [digit (n mod 10)])"

declare dec.simps [simp del]

definition dec_int :: "int \<Rightarrow> string" where
  "dec_int i = (if i < 0 then ''-'' @ dec (nat (- i)) else dec (nat i))"

definition undigit :: "char \<Rightarrow> nat" where
  "undigit c = of_char c - 48"

definition undec :: "string \<Rightarrow> nat" where
  "undec s = foldl (\<lambda>n c. 10 * n + undigit c) 0 s"

lemma undigit_digit: "d < 10 \<Longrightarrow> undigit (digit d) = d"
  by (simp add: undigit_def digit_def)

lemma digit_not_NUL: "d < 10 \<Longrightarrow> digit d \<noteq> NUL"
proof
  assume "d < 10" and "digit d = NUL"
  then have "of_char (digit d) = (0 :: nat)" by simp
  with \<open>d < 10\<close> show False by (simp add: digit_def)
qed

lemma undec_dec: "undec (dec n) = n"
proof (induction n rule: dec.induct)
  case (1 n)
  show ?case
  proof (cases "n < 10")
    case True
    then show ?thesis by (subst dec.simps) (simp add: undec_def undigit_digit)
  next
    case False
    with 1 have "undec (dec (n div 10)) = n div 10" by simp
    with False show ?thesis
      by (subst dec.simps) (simp add: undec_def undigit_digit)
  qed
qed

lemma no_nul_dec [simp]: "no_nul (dec n)"
proof (induction n rule: dec.induct)
  case (1 n)
  then show ?case
    by (subst dec.simps) (auto simp: digit_not_NUL)
qed

lemma dec_nonempty [simp]: "dec n \<noteq> []"
  by (subst dec.simps) simp

lemma length_dec_le: "n < 10 ^ k \<Longrightarrow> 0 < k \<Longrightarrow> length (dec n) \<le> k"
proof (induction k arbitrary: n)
  case 0
  then show ?case by simp
next
  case (Suc k)
  show ?case
  proof (cases "n < 10")
    case True
    then show ?thesis by (subst dec.simps) simp
  next
    case False
    with Suc.prems have "n div 10 < 10 ^ k" and "0 < k"
      by (auto simp: less_mult_imp_div_less) (cases k; simp)
    then have "length (dec (n div 10)) \<le> k" by (rule Suc.IH)
    with False show ?thesis by (subst dec.simps) simp
  qed
qed

lemma length_dec_ge: "10 ^ k \<le> n \<Longrightarrow> k < length (dec n)"
proof (induction k arbitrary: n)
  case 0
  then show ?case by (subst dec.simps) simp
next
  case (Suc k)
  have "(10 :: nat) \<le> 10 ^ Suc k" by simp
  with Suc.prems have "\<not> n < 10" by linarith
  from Suc.prems have "10 ^ k \<le> n div 10" by (simp add: less_eq_div_iff_mult_less_eq mult.commute)
  then have "k < length (dec (n div 10))" by (rule Suc.IH)
  with \<open>\<not> n < 10\<close> show ?case by (subst dec.simps) simp
qed

lemma length_dec_size_t: "length (dec (unat (n :: size_t))) \<le> 20"
proof (rule length_dec_le)
  have "unat n < 18446744073709551616" by simp
  also have "\<dots> \<le> 10 ^ 20" by simp
  finally show "unat n < 10 ^ 20" .
qed simp

section \<open>Strings with a size (srclib/string)\<close>

text \<open>\<open>struct string\<close>.\<close>

record sized_string =
  str_data :: char_ptr
  str_size :: size_t

text \<open>\<open>s.data[i]\<close>\<close>

definition char_at :: "char_ptr \<Rightarrow> nat \<Rightarrow> char outcome" where
  "char_at p i = obind (deref p) (\<lambda>s. if i < length s then Ret (s ! i) else Undef Out_Of_Bounds)"

text \<open>
  The loop of \<open>string_are_equal\<close>. Its index is an \<open>unsigned int\<close>, the sizes are \<open>size_t\<close>: when the first \<open>2 ^ 32\<close>
  bytes are equal the index is 0 again, the same bytes are compared again, and the loop never ends.
\<close>

function string_are_equal_loop :: "sized_string \<Rightarrow> sized_string \<Rightarrow> nat \<Rightarrow> bool outcome" where
  "string_are_equal_loop s1 s2 i =
     (if i = 2 ^ 32 then Unfinished
      else if i < unat (str_size s1)
      then obind (char_at (str_data s1) i) (\<lambda>c1. obind (char_at (str_data s2) i) (\<lambda>c2.
             if c1 \<noteq> c2 then Ret False else string_are_equal_loop s1 s2 (Suc i)))
      else Ret True)"
  by pat_completeness auto
termination
  by (relation "measure (\<lambda>(s1, s2, i). unat (str_size s1) - i)") auto

definition string_are_equal :: "sized_string \<Rightarrow> sized_string \<Rightarrow> bool outcome" where
  "string_are_equal s1 s2 =
     (if str_size s1 = str_size s2 then string_are_equal_loop s1 s2 0 else Ret False)"

text \<open>The loop of \<open>string_is_equal_to\<close>: \<open>iterator\<close> is the rest of the C string \<open>s2\<close>. The index wraps here too, while
  the iterator goes on.\<close>

fun string_is_equal_to_loop :: "sized_string \<Rightarrow> 32 word \<Rightarrow> string \<Rightarrow> bool outcome" where
  "string_is_equal_to_loop s1 i [] = Ret (unat i = unat (str_size s1))"
| "string_is_equal_to_loop s1 i (c # iterator) =
     (if unat i < unat (str_size s1) \<and> c \<noteq> NUL
      then obind (char_at (str_data s1) (unat i)) (\<lambda>c1.
             if c1 \<noteq> c then Ret False else string_is_equal_to_loop s1 (i + 1) iterator)
      else Ret (unat i = unat (str_size s1) \<and> c = NUL))"

definition string_is_equal_to :: "sized_string \<Rightarrow> char_ptr \<Rightarrow> bool outcome" where
  "string_is_equal_to s1 s2 = obind (deref s2) (\<lambda>s. string_is_equal_to_loop s1 0 s)"

text \<open>A string is readable when its bytes exist and an \<open>unsigned int\<close> can count them; \<open>bytes\<close> is what it denotes.\<close>

definition readable :: "sized_string \<Rightarrow> bool" where
  "readable s = (case str_data s of
     None \<Rightarrow> str_size s = 0
   | Some d \<Rightarrow> unat (str_size s) \<le> length d \<and> unat (str_size s) < 2 ^ 32)"

lemma readable_size: "readable s \<Longrightarrow> unat (str_size s) < 2 ^ 32"
  by (simp add: readable_def split: option.splits)

definition bytes :: "sized_string \<Rightarrow> string" where
  "bytes s = (case str_data s of None \<Rightarrow> [] | Some d \<Rightarrow> take (unat (str_size s)) d)"

lemma bytes_make: "bytes \<lparr>str_data = p, str_size = n\<rparr> = (case p of None \<Rightarrow> [] | Some d \<Rightarrow> take (unat n) d)"
  by (simp add: bytes_def split: option.split)

lemma bytes_resize: "bytes (s\<lparr>str_size := n\<rparr>) = (case str_data s of None \<Rightarrow> [] | Some d \<Rightarrow> take (unat n) d)"
  by (simp add: bytes_def split: option.split)

lemma length_bytes: "readable s \<Longrightarrow> length (bytes s) = unat (str_size s)"
  by (auto simp: readable_def bytes_def unsigned_eq_0_iff split: option.splits)

lemma bytes_nth: "readable s \<Longrightarrow> i < unat (str_size s) \<Longrightarrow> i < length (bytes s)"
  by (simp add: length_bytes)

lemma char_at_readable: "readable s \<Longrightarrow> i < unat (str_size s) \<Longrightarrow> char_at (str_data s) i = Ret (bytes s ! i)"
  by (auto simp: readable_def char_at_def bytes_def split: option.splits)

lemma string_is_equal_to_loop_eq:
  "readable s1 \<Longrightarrow> unat i \<le> unat (str_size s1) \<Longrightarrow>
   string_is_equal_to_loop s1 i s = Ret (drop (unat i) (bytes s1) = cstr s)"
proof (induction s arbitrary: i)
  case Nil
  then show ?case by (auto simp: length_bytes)
next
  case (Cons c s)
  show ?case
  proof (cases "unat i < unat (str_size s1)")
    case True
    then have "drop (unat i) (bytes s1) = bytes s1 ! unat i # drop (Suc (unat i)) (bytes s1)"
      using Cons.prems by (intro Cons_nth_drop_Suc [symmetric] bytes_nth)
    moreover have "unat (i + 1) = Suc (unat i)"
      using True readable_size [OF Cons.prems(1)] by (subst unat_word_ariths) simp
    ultimately show ?thesis using True Cons by (auto simp: char_at_readable)
  next
    case False
    with Cons.prems show ?thesis by (auto simp: length_bytes)
  qed
qed

lemma string_is_equal_to_eq:
  "readable s1 \<Longrightarrow> string_is_equal_to s1 (Some s2) = Ret (bytes s1 = cstr s2)"
  by (simp add: string_is_equal_to_def string_is_equal_to_loop_eq)

declare string_are_equal_loop.simps [simp del]

lemma string_are_equal_loop_eq:
  "readable s1 \<Longrightarrow> readable s2 \<Longrightarrow> str_size s1 = str_size s2 \<Longrightarrow> i \<le> unat (str_size s1) \<Longrightarrow>
   string_are_equal_loop s1 s2 i = Ret (drop i (bytes s1) = drop i (bytes s2))"
proof (induction s1 s2 i rule: string_are_equal_loop.induct)
  case (1 s1 s2 i)
  then have "i \<noteq> 2 ^ 32" using readable_size [of s1] by linarith
  then show ?case
  proof (cases "i < unat (str_size s1)")
    case True
    then have d: "drop i (bytes s1) = bytes s1 ! i # drop (Suc i) (bytes s1)"
      "drop i (bytes s2) = bytes s2 ! i # drop (Suc i) (bytes s2)"
      using 1 by (auto intro!: Cons_nth_drop_Suc [symmetric] simp: length_bytes)
    with True 1 \<open>i \<noteq> 2 ^ 32\<close> show ?thesis
      by (subst string_are_equal_loop.simps) (auto simp: char_at_readable)
  next
    case False
    with 1 \<open>i \<noteq> 2 ^ 32\<close> show ?thesis
      by (subst string_are_equal_loop.simps) (simp add: length_bytes)
  qed
qed

lemma string_are_equal_eq:
  assumes "readable s1" and "readable s2"
  shows "string_are_equal s1 s2 = Ret (bytes s1 = bytes s2)"
proof (cases "str_size s1 = str_size s2")
  case True
  with assms show ?thesis by (simp add: string_are_equal_def string_are_equal_loop_eq)
next
  case False
  with assms have "length (bytes s1) \<noteq> length (bytes s2)"
    by (simp add: length_bytes word_unat_eq_iff)
  with False show ?thesis by (auto simp: string_are_equal_def)
qed

section \<open>Properties\<close>

text \<open>C28: both comparisons of sized strings are equality of the strings they denote: of the bytes of the two, and of
  the bytes of the first and the C string up to its NUL, whatever follows either in memory. They read
  no byte outside them, also when a string is empty, one is a prefix of the other, or the first holds a NUL.\<close>

theorem string_comparisons_are_equality:
  assumes "readable s1" and "readable s2"
  shows "string_are_equal s1 s2 = Ret (bytes s1 = bytes s2) \<and>
    string_is_equal_to s1 (Some t) = Ret (bytes s1 = cstr t)"
  using string_are_equal_eq [OF assms] string_is_equal_to_eq [OF assms(1)] by blast

theorem string_comparisons_are_equality_witness:
  "string_are_equal \<lparr>str_data = Some ''Host: a'', str_size = 4\<rparr> \<lparr>str_data = Some ''Host'', str_size = 4\<rparr> = Ret True \<and>
   string_is_equal_to \<lparr>str_data = Some ''Host: a'', str_size = 4\<rparr> (Some ''Hosts'') = Ret False"
  using string_comparisons_are_equality [of "\<lparr>str_data = Some ''Host: a'', str_size = 4\<rparr>"
      "\<lparr>str_data = Some ''Host'', str_size = 4\<rparr>" "''Hosts''"]
  by (simp add: readable_def bytes_def)

text \<open>Strings of 4 GiB and more: the comparison of two that agree never ends.\<close>

lemma string_are_equal_loop_wraps:
  assumes "str_data s = Some d" and "2 ^ 32 \<le> unat (str_size s)" and "unat (str_size s) \<le> length d"
  shows "i \<le> 2 ^ 32 \<Longrightarrow> string_are_equal_loop s s i = Unfinished"
proof (induction rule: inc_induct)
  case base
  show ?case by (subst string_are_equal_loop.simps) simp
next
  case (step i)
  then have "i < unat (str_size s)" "i < length d" "i \<noteq> 2 ^ 32" using assms(2,3) by linarith+
  with step show ?case using assms(1) by (subst string_are_equal_loop.simps) (simp add: char_at_def)
qed

theorem long_strings_are_not_compared:
  assumes "str_data s = Some d" and "2 ^ 32 \<le> unat (str_size s)" and "unat (str_size s) \<le> length d"
  shows "string_are_equal s s = Unfinished"
  using string_are_equal_loop_wraps [OF assms] by (simp add: string_are_equal_def)

theorem long_strings_are_not_compared_witness:
  "\<exists>d. string_are_equal \<lparr>str_data = Some d, str_size = 2 ^ 32\<rparr> \<lparr>str_data = Some d, str_size = 2 ^ 32\<rparr> = Unfinished"
proof -
  define n :: nat where "n = 2 ^ 32"
  have "unat (2 ^ 32 :: size_t) = n" by (simp add: n_def)
  then show ?thesis
    using long_strings_are_not_compared [of "\<lparr>str_data = Some (replicate n CHR ''a''), str_size = 2 ^ 32\<rparr>" "replicate n CHR ''a''"]
    unfolding n_def [symmetric] by (intro exI [of _ "replicate n CHR ''a''"]) simp
qed

end
