(* ===== verification/Byte_Sink.thy ===== *)
theory Byte_Sink
  imports Cstring
begin

text \<open>
  The interface of a growing byte buffer as the code that builds responses uses it: a
  buffer holds bytes, appending a C string or a number puts its bytes at the end, and
  everything outside the buffer's own blocks is kept. The locale states these laws for any
  provider; its lemma says what a whole sequence of appends leaves in the buffer.
\<close>

definition alloc_ok :: "env \<Rightarrow> bool" where
  "alloc_ok E \<longleftrightarrow> (\<forall>k. malloc_ok E k)"

lemma alloc_okD [simp]: "alloc_ok E \<Longrightarrow> malloc_ok E k"
  by (simp add: alloc_ok_def)

text \<open>An argument of an append: a pointer to a C string, or a number.\<close>

datatype piece = Text char_ptr | Number size_t

text \<open>The bytes a number contributes: its decimal digits up to 19 of them; the buffer \<open>snprintf\<close> is
  given has no room for a twentieth digit, whose place the terminator takes.\<close>

definition number_text :: "nat \<Rightarrow> string" where
  "number_text n = (if n < 10 ^ 19 then dec n else take 19 (dec n) @ [NUL])"

fun render :: "piece list \<Rightarrow> string" where
  "render [] = []"
| "render (Text p # ps) = (case p of None \<Rightarrow> [] | Some x \<Rightarrow> cstr x) @ render ps"
| "render (Number n # ps) = number_text (unat n) @ render ps"

fun weight :: "piece list \<Rightarrow> nat" where
  "weight [] = 0"
| "weight (Text p # ps) = (case p of None \<Rightarrow> 0 | Some x \<Rightarrow> length (cstr x)) + weight ps"
| "weight (Number n # ps) = 20 + weight ps"

definition no_null :: "piece list \<Rightarrow> bool" where
  "no_null ps \<longleftrightarrow> list_all (\<lambda>p. p \<noteq> Text None) ps"

lemma no_null_simps [simp]:
  "no_null []"
  "no_null (Text p # ps) \<longleftrightarrow> p \<noteq> None \<and> no_null ps"
  "no_null (Number n # ps) \<longleftrightarrow> no_null ps"
  "no_null (ps @ qs) \<longleftrightarrow> no_null ps \<and> no_null qs"
  by (simp_all add: no_null_def)

lemma render_append [simp]: "render (ps @ qs) = render ps @ render qs"
  by (induction ps rule: render.induct) auto

lemma weight_append [simp]: "weight (ps @ qs) = weight ps + weight qs"
  by (induction ps rule: weight.induct) auto

lemma number_text_snprintf:
  "n < 2 ^ 64 \<Longrightarrow> take (length (dec n)) (snprintf_bytes 20 (dec n)) = number_text n"
proof (cases "n < 10 ^ 19")
  case True
  then have "length (dec n) \<le> 19" by (intro length_dec_le) auto
  with True show ?thesis by (simp add: snprintf_bytes_def number_text_def)
next
  case False
  moreover assume "n < 2 ^ 64"
  ultimately have "length (dec n) = 20"
    using length_dec_ge [of 19 n] length_dec_le [of n 20] by simp
  with False show ?thesis by (simp add: snprintf_bytes_def number_text_def)
qed

lemma length_number_text: "n < 2 ^ 64 \<Longrightarrow> length (number_text n) = length (dec n)"
  using length_dec_le [of n 20]
  by (simp add: number_text_snprintf [symmetric] snprintf_bytes_def)

lemma length_number_text_le: "length (number_text (unat (n :: size_t))) \<le> 20"
  using length_dec_size_t [of n]
  by (simp add: length_number_text unat_size_t_lt del: power_numeral)

lemma number_text_small [simp]: "n < 10 ^ 19 \<Longrightarrow> number_text n = dec n"
  by (simp add: number_text_def)

text \<open>A sequence of appends, each to the buffer the one before returned.\<close>

fun append_pieces ::
    "('b option \<Rightarrow> char_ptr \<Rightarrow> (size_t \<times> 'b option) prog) \<Rightarrow>
     ('b option \<Rightarrow> size_t \<Rightarrow> (size_t \<times> 'b option) prog) \<Rightarrow>
     'b option \<Rightarrow> piece list \<Rightarrow> 'b option prog" where
  "append_pieces app num db [] = return db"
| "append_pieces app num db (Text p # ps) =
     bind (app db p) (\<lambda>(_, db). append_pieces app num db ps)"
| "append_pieces app num db (Number n # ps) =
     bind (num db n) (\<lambda>(_, db). append_pieces app num db ps)"

locale byte_sink =
  fixes holds :: "'b \<Rightarrow> string \<Rightarrow> nat set \<Rightarrow> world \<Rightarrow> world \<Rightarrow> bool"
    and append_string :: "'b option \<Rightarrow> char_ptr \<Rightarrow> (size_t \<times> 'b option) prog"
    and append_number :: "'b option \<Rightarrow> size_t \<Rightarrow> (size_t \<times> 'b option) prog"
    and get_buffer :: "'b option \<Rightarrow> char_ptr"
    and get_size :: "'b option \<Rightarrow> size_t"
    and destroy :: "'b option \<Rightarrow> unit prog"
  assumes append_string:
      "alloc_ok E \<Longrightarrow> holds d s F R w \<Longrightarrow> length s + length (cstr x) < 2 ^ 64 \<Longrightarrow>
       (\<And>r d' w'. holds d' (s @ cstr x) F R w' \<Longrightarrow> Q (r, Some d') w') \<Longrightarrow>
       wp (append_string (Some d) (Some x)) Q E w"
    and append_number:
      "alloc_ok E \<Longrightarrow> holds d s F R w \<Longrightarrow> length s + 20 < 2 ^ 64 \<Longrightarrow>
       (\<And>r d' w'. holds d' (s @ number_text (unat n)) F R w' \<Longrightarrow> Q (r, Some d') w') \<Longrightarrow>
       wp (append_number (Some d) n) Q E w"
    and buffer_holds:
      "holds d s F R w \<Longrightarrow>
       \<exists>tail. get_buffer (Some d) = Some (s @ tail) \<and> unat (get_size (Some d)) = length s"
    and destroy:
      "holds d s F R w \<Longrightarrow>
       (\<And>w'. live w' = F \<Longrightarrow> heap_ok w' \<Longrightarrow> rest w' = R \<Longrightarrow> P () w') \<Longrightarrow>
       wp (destroy (Some d)) P E w"
begin

lemma wp_append_pieces:
  assumes alloc: "alloc_ok E"
  shows "holds d s F R w \<Longrightarrow> length s + weight ps < 2 ^ 64 \<Longrightarrow> no_null ps \<Longrightarrow>
    (\<And>d' w'. holds d' (s @ render ps) F R w' \<Longrightarrow> Q (Some d') w') \<Longrightarrow>
    wp (append_pieces append_string append_number (Some d) ps) Q E w"
proof (induction ps arbitrary: d s w rule: render.induct)
  case 1
  then show ?case by simp
next
  case (2 p ps)
  then obtain x where x: "p = Some x" by auto
  have "wp (append_string (Some d) (Some x))
      (\<lambda>a. wp (append_pieces append_string append_number (snd a) ps) Q E) E w"
  proof (rule append_string [OF alloc "2.prems"(1)])
    show "length s + length (cstr x) < 2 ^ 64" using "2.prems"(2) x by simp
    show "wp (append_pieces append_string append_number (snd (r, Some d')) ps) Q E w'"
      if "holds d' (s @ cstr x) F R w'" for r d' w'
      using "2.IH" [OF that] "2.prems"(2-4) x by simp
  qed
  with x show ?case by (simp add: split_beta')
next
  case (3 n ps)
  have "wp (append_number (Some d) n)
      (\<lambda>a. wp (append_pieces append_string append_number (snd a) ps) Q E) E w"
  proof (rule append_number [OF alloc "3.prems"(1)])
    show "length s + 20 < 2 ^ 64" using "3.prems"(2) by simp
    show "wp (append_pieces append_string append_number (snd (r, Some d')) ps) Q E w'"
      if "holds d' (s @ number_text (unat n)) F R w'" for r d' w'
      using "3.IH" [OF that] "3.prems"(2-4) length_number_text_le [of n] by simp
  qed
  then show ?case by (simp add: split_beta')
qed

text \<open>What the consumer of the buffer is given: exactly the bytes held, whatever follows them.\<close>

lemma given_bytes:
  assumes "holds d s F R w"
  obtains data where "get_buffer (Some d) = Some data"
    and "unat (get_size (Some d)) = length s" and "take (length s) data = s" and "length s \<le> length data"
  using buffer_holds [OF assms] by (auto intro: that)

end

end
