(* ===== verification/Demo.thy ===== *)
theory Demo
  imports Cstring
begin

text \<open>
  A concrete environment and a concrete state, at which the properties with hypotheses are
  applied: every call succeeds, a parser that accepts one fixed layout, and a process with
  nothing allocated. No component is defined over them.
\<close>

text \<open>The layout of \<open>GET /a.txt HTTP/1.1\<close> with one header \<open>H: v\<close>, 29 bytes.\<close>

definition demo_text :: string where
  "demo_text = ''GET /a.txt HTTP/1.1'' @ CRLF @ ''H: v'' @ CRLF @ CRLF"

definition demo_header :: phr_header where
  "demo_header = \<lparr>hname = 21, hname_len = 1, hvalue = 24, hvalue_len = 1\<rparr>"

definition demo_answer :: "int \<Rightarrow> phr_header list \<Rightarrow> phr_result" where
  "demo_answer ret hs = \<lparr>phr_ret = ret, phr_method = 0, phr_method_len = 3, phr_path = 4, phr_path_len = 6,
     phr_minor_version = 1, phr_headers = hs, phr_num_headers = length hs\<rparr>"

definition demo_parse :: "string \<Rightarrow> nat \<Rightarrow> nat \<Rightarrow> phr_result" where
  "demo_parse buf seen room =
     (if length buf < 29 then demo_answer (-2) []
      else if room = 0 then demo_answer (-1) []
      else demo_answer 29 [demo_header])"

definition demo_env :: env where
  "demo_env = \<lparr>malloc_ok = (\<lambda>k. True), junk = (\<lambda>i. if i < 4 then CHR ''?'' else NUL), send_ret = (\<lambda>k. Some (2 ^ 64)),
     call_ok = (\<lambda>k. True), now = (\<lambda>k. 0), access_ok = (\<lambda>f. True), file_at = (\<lambda>f. Some ''hi''),
     stat_of = (\<lambda>k f. Some (2, 0)), script_run = (\<lambda>i p s t. [Bytes ''ok'', Eof]),
     wait_status = (\<lambda>k. 0), phr_parse_request = demo_parse,
     cfg_parse = (\<lambda>f. \<lparr>cfg_status = CFG_SUCCESS, cfg_str = (\<lambda>o'. Some ''INFO''), cfg_int = (\<lambda>o'. Some 8)\<rparr>),
     run_from_systemd = True, ctime = (\<lambda>k. ''now'')\<rparr>"

definition demo_world :: world where
  "demo_world = \<lparr>n_malloc = 0, live = {}, next_fd = 8, open_fds = {7},
     pending = (\<lambda>fd. [Bytes demo_text, Eof]), n_send = 0, n_calls = 0, trace = [], log_limit = 6, log_out = []\<rparr>"

lemma demo_env_sel [simp]:
  "malloc_ok demo_env = (\<lambda>k. True)" "junk demo_env = (\<lambda>i. if i < 4 then CHR ''?'' else NUL)" "send_ret demo_env = (\<lambda>k. Some (2 ^ 64))"
  "call_ok demo_env = (\<lambda>k. True)" "phr_parse_request demo_env = demo_parse"
  "access_ok demo_env = (\<lambda>f. True)" "file_at demo_env = (\<lambda>f. Some ''hi'')"
  "stat_of demo_env = (\<lambda>k f. Some (2, 0))" "now demo_env = (\<lambda>k. 0)"
  "script_run demo_env = (\<lambda>i p s t. [Bytes ''ok'', Eof])"
  "wait_status demo_env = (\<lambda>k. 0)"
  "cfg_status (cfg_parse demo_env f) = CFG_SUCCESS"
  "cfg_str (cfg_parse demo_env f) = (\<lambda>o'. Some ''INFO'')"
  "cfg_int (cfg_parse demo_env f) = (\<lambda>o'. Some 8)"
  by (simp_all add: demo_env_def)

lemma demo_world_sel [simp]:
  "n_malloc demo_world = 0" "live demo_world = {}" "next_fd demo_world = 8" "open_fds demo_world = {7}"
  "pending demo_world fd = [Bytes demo_text, Eof]" "trace demo_world = []"
  "n_send demo_world = 0" "n_calls demo_world = 0" "log_limit demo_world = 6" "log_out demo_world = []"
  by (simp_all add: demo_world_def)

lemma demo_heap_ok [simp]: "heap_ok demo_world"
  by (simp add: heap_ok_def)

end
