(* ===== verification/Dynamic_Buffer.thy ===== *)
theory Dynamic_Buffer
  imports Logging Byte_Sink Demo
begin

text \<open>
  The growing byte buffer, srclib/dynamic_buffer: a block for the struct, a block for the
  bytes, a capacity and a size. Every operation of dynamic_buffer.c is a program over the
  heap and the log; a \<open>DynamicBuffer *\<close> is \<open>DynamicBuffer option\<close>, and an operation that
  changes the struct returns the changed one. The sizes are 64-bit words, so that the sums
  of \<open>_grow_buffer\<close> and the differences of \<open>_can_fit\<close> wrap as they do in C.
\<close>

section \<open>The code\<close>

record DynamicBuffer =
  sb_ptr :: nat                \<comment> \<open>block of the struct\<close>
  buf_ptr :: nat               \<comment> \<open>block of the bytes\<close>
  db_capacity :: size_t
  db_size :: size_t
  db_buffer :: string

definition DEFAULT_INITIAL_CAPACITY :: int where "DEFAULT_INITIAL_CAPACITY = 4096"
definition DEFAULT_FD_BUFFER :: int where "DEFAULT_FD_BUFFER = 256"

definition dynamic_buffer_ini :: "int \<Rightarrow> DynamicBuffer option prog" where
  "dynamic_buffer_ini initial_capacity =
     bind (if initial_capacity < 1
           then bind (print_warning ''initial capacity cannot be %d, setting it to %d'')
                  (\<lambda>_. return DEFAULT_INITIAL_CAPACITY)
           else return initial_capacity) (\<lambda>initial_capacity.
     bind malloc (\<lambda>sb. case sb of
       None \<Rightarrow> bind (print_error ''failed to allocate memory'') (\<lambda>_. return None)
     | Some sb \<Rightarrow>
         bind malloc (\<lambda>buffer. case buffer of
           None \<Rightarrow> bind (print_error ''failed to allocate memory'') (\<lambda>_. return None)
         | Some buffer \<Rightarrow>
             bind (asks (\<lambda>E. fresh_bytes E 0 (unat (of_int initial_capacity :: size_t)))) (\<lambda>bytes.
             return (Some \<lparr>sb_ptr = sb, buf_ptr = buffer, db_capacity = of_int initial_capacity,
                           db_size = 0, db_buffer = bytes\<rparr>)))))"

definition grow_buffer :: "DynamicBuffer \<Rightarrow> size_t \<Rightarrow> DynamicBuffer prog" where
  "grow_buffer db sz =
     (if db_size db + sz > db_capacity db
      then bind (realloc (buf_ptr db)) (\<lambda>new_buffer. case new_buffer of
             None \<Rightarrow> bind (print_error ''failed to allocate memory'') (\<lambda>_. return db)
           | Some new_buffer \<Rightarrow>
               bind (print_debug ''allocated more memory, from %zu to %zu'') (\<lambda>_.
               bind (asks (\<lambda>E. fresh_bytes E (unat (db_capacity db))
                        (unat (db_size db + sz) - unat (db_capacity db)))) (\<lambda>new_bytes.
               return (db\<lparr>buf_ptr := new_buffer, db_capacity := db_size db + sz,
                          db_buffer := db_buffer db @ new_bytes\<rparr>))))
      else return db)"

definition can_fit :: "DynamicBuffer \<Rightarrow> size_t \<Rightarrow> bool" where
  "can_fit db sz \<longleftrightarrow> sz \<le> db_capacity db - db_size db"

definition dynamic_buffer_append ::
    "DynamicBuffer option \<Rightarrow> char_ptr \<Rightarrow> size_t \<Rightarrow> (size_t \<times> DynamicBuffer option) prog" where
  "dynamic_buffer_append db src sz =
     (case (db, src) of
        (Some d, Some s) \<Rightarrow>
          bind (grow_buffer d sz) (\<lambda>d.
            if \<not> can_fit d sz then return (0, Some d)
            else if length s < unat sz then undef Out_Of_Bounds
            else bind (lift (mem_write (db_buffer d) (unat (db_size d)) (take (unat sz) s))) (\<lambda>buffer.
              return (sz, Some (d\<lparr>db_buffer := buffer, db_size := db_size d + sz\<rparr>))))
      | _ \<Rightarrow> bind (print_warning ''NULL passed to dynamic_buffer_append'') (\<lambda>_. return (0, db)))"

definition dynamic_buffer_append_string ::
    "DynamicBuffer option \<Rightarrow> char_ptr \<Rightarrow> (size_t \<times> DynamicBuffer option) prog" where
  "dynamic_buffer_append_string db string =
     bind (lift (strlen string)) (\<lambda>len. dynamic_buffer_append db string (of_nat len))"

definition dynamic_buffer_append_number ::
    "DynamicBuffer option \<Rightarrow> size_t \<Rightarrow> (size_t \<times> DynamicBuffer option) prog" where
  "dynamic_buffer_append_number db n =
     (case db of
        None \<Rightarrow> bind (print_warning ''NULL passed to dynamic_buffer_append_number'') (\<lambda>_. return (0, None))
      | Some d \<Rightarrow>
          bind (grow_buffer d 20) (\<lambda>d.
          bind (lift (mem_write (db_buffer d) (unat (db_size d)) (snprintf_bytes 20 (dec (unat n))))) (\<lambda>buffer.
          let bytes_read = of_nat (length (dec (unat n)))
          in return (bytes_read, Some (d\<lparr>db_buffer := buffer, db_size := db_size d + bytes_read\<rparr>)))))"

text \<open>A \<open>FILE *\<close> opened for reading is what is left to read; \<open>fread\<close> is short only at the end.\<close>

type_synonym FILE = string

definition fread :: "nat \<Rightarrow> FILE \<Rightarrow> string \<times> FILE" where
  "fread n f = (take n f, drop n f)"

definition dynamic_buffer_append_file ::
    "DynamicBuffer option \<Rightarrow> FILE option \<Rightarrow> size_t \<Rightarrow> (size_t \<times> DynamicBuffer option \<times> FILE option) prog" where
  "dynamic_buffer_append_file db f sz =
     (case (db, f) of
        (Some d, Some file) \<Rightarrow>
          bind (grow_buffer d sz) (\<lambda>d.
            if \<not> can_fit d sz then return (0, Some d, f)
            else let (bytes, file') = fread (unat sz) file in
              bind (lift (mem_write (db_buffer d) (unat (db_size d)) bytes)) (\<lambda>buffer.
              let bytes_read = of_nat (length bytes)
              in return (bytes_read, Some (d\<lparr>db_buffer := buffer, db_size := db_size d + bytes_read\<rparr>),
                         Some file')))
      | _ \<Rightarrow> bind (print_warning ''NULL passed to dynamic_buffer_append_file'') (\<lambda>_. return (0, db, f)))"

definition dynamic_buffer_append_file_chunked ::
    "DynamicBuffer option \<Rightarrow> FILE option \<Rightarrow> (size_t \<times> DynamicBuffer option \<times> FILE option) prog" where
  "dynamic_buffer_append_file_chunked db f =
     (case (db, f) of
        (Some d, Some file) \<Rightarrow>
          let available_space = db_capacity d - db_size d;
              (bytes, file') = fread (unat available_space) file in
          bind (lift (mem_write (db_buffer d) (unat (db_size d)) bytes)) (\<lambda>buffer.
          let bytes_read = of_nat (length bytes)
          in return (bytes_read, Some (d\<lparr>db_buffer := buffer, db_size := db_size d + bytes_read\<rparr>), Some file'))
      | _ \<Rightarrow> bind (print_warning ''NULL passed to dynamic_buffer_append_file_chunked'')
               (\<lambda>_. return (0, db, f)))"

text \<open>
  The loop of \<open>dynamic_buffer_append_fd\<close>, with the number of passes it may make. \<open>read\<close>
  returns -1 on an error, and the code stores it in a \<open>size_t\<close>. A pass stores what was
  read, adds the result of \<open>read\<close> to the size, and grows a full buffer.
\<close>

definition read_count :: "read_result \<Rightarrow> size_t" where
  "read_count r = (case r of Got bs \<Rightarrow> of_nat (length bs) | Err e \<Rightarrow> -1)"

definition read_bytes :: "read_result \<Rightarrow> string" where
  "read_bytes r = (case r of Got bs \<Rightarrow> bs | Err e \<Rightarrow> [])"

definition append_fd_pass :: "DynamicBuffer \<Rightarrow> read_result \<Rightarrow> DynamicBuffer prog" where
  "append_fd_pass db r =
     bind (lift (mem_write (db_buffer db) (unat (db_size db)) (read_bytes r))) (\<lambda>buffer.
     bind (print_debug ''Read %zu bytes from fd'') (\<lambda>_.
     let db = db\<lparr>db_buffer := buffer, db_size := db_size db + read_count r\<rparr> in
     if db_size db = db_capacity db then grow_buffer db (of_int DEFAULT_FD_BUFFER) else return db))"

fun dynamic_buffer_append_fd_loop ::
    "nat \<Rightarrow> DynamicBuffer \<Rightarrow> int \<Rightarrow> size_t \<Rightarrow> (size_t \<times> DynamicBuffer) prog" where
  "dynamic_buffer_append_fd_loop 0 db fd total_bytes_read = unfinished"
| "dynamic_buffer_append_fd_loop (Suc passes) db fd total_bytes_read =
     bind (sys_read fd (unat (db_capacity db - db_size db))) (\<lambda>r.
     bind (append_fd_pass db r) (\<lambda>db.
     if read_count r > 0
     then dynamic_buffer_append_fd_loop passes db fd (total_bytes_read + read_count r)
     else return (total_bytes_read + read_count r, db)))"

definition dynamic_buffer_append_fd ::
    "nat \<Rightarrow> DynamicBuffer option \<Rightarrow> int \<Rightarrow> (size_t \<times> DynamicBuffer option) prog" where
  "dynamic_buffer_append_fd passes db fd =
     (case db of
        None \<Rightarrow> undef Null_Deref
      | Some d \<Rightarrow> bind (dynamic_buffer_append_fd_loop passes d fd 0) (\<lambda>(n, d'). return (n, Some d')))"

definition dynamic_buffer_is_empty :: "DynamicBuffer option \<Rightarrow> bool" where
  "dynamic_buffer_is_empty db = (case db of None \<Rightarrow> False | Some d \<Rightarrow> db_size d = 0)"

definition dynamic_buffer_is_full :: "DynamicBuffer option \<Rightarrow> bool" where
  "dynamic_buffer_is_full db = (case db of None \<Rightarrow> False | Some d \<Rightarrow> db_size d = db_capacity d)"

definition dynamic_buffer_clear :: "DynamicBuffer option \<Rightarrow> DynamicBuffer option" where
  "dynamic_buffer_clear db = map_option (\<lambda>d. d\<lparr>db_size := 0\<rparr>) db"

definition dynamic_buffer_get_buffer :: "DynamicBuffer option \<Rightarrow> char_ptr" where
  "dynamic_buffer_get_buffer db = map_option db_buffer db"

definition dynamic_buffer_get_size :: "DynamicBuffer option \<Rightarrow> size_t" where
  "dynamic_buffer_get_size db = (case db of None \<Rightarrow> 0 | Some d \<Rightarrow> db_size d)"

definition dynamic_buffer_destroy :: "DynamicBuffer option \<Rightarrow> unit prog" where
  "dynamic_buffer_destroy db =
     (case db of
        None \<Rightarrow> return ()
      | Some d \<Rightarrow> bind (free (buf_ptr d)) (\<lambda>_. free (sb_ptr d)))"

section \<open>Invariant and abstract content\<close>

text \<open>What the struct keeps: the size is within the capacity, and the block has the capacity.
  The abstract value of a buffer is the bytes below its size.\<close>

definition db_inv :: "DynamicBuffer \<Rightarrow> bool" where
  "db_inv d \<longleftrightarrow> db_size d \<le> db_capacity d \<and> length (db_buffer d) = unat (db_capacity d)"

definition content :: "DynamicBuffer \<Rightarrow> string" where
  "content d = take (unat (db_size d)) (db_buffer d)"

text \<open>
  \<open>db_holds d s F R w\<close>: in the state \<open>w\<close> the buffer \<open>d\<close> is well formed and holds the bytes \<open>s\<close>; its
  two blocks are allocated, \<open>F\<close> is every other allocated block, and \<open>R\<close> is the state apart
  from the heap and the log. The operations keep \<open>F\<close> and \<open>R\<close>.
\<close>

definition db_holds :: "DynamicBuffer \<Rightarrow> string \<Rightarrow> nat set \<Rightarrow> world \<Rightarrow> world \<Rightarrow> bool" where
  "db_holds d s F R w \<longleftrightarrow>
     db_inv d \<and> content d = s \<and> heap_ok w \<and>
     live w = insert (sb_ptr d) (insert (buf_ptr d) F) \<and>
     sb_ptr d \<notin> F \<and> buf_ptr d \<notin> F \<and> sb_ptr d \<noteq> buf_ptr d \<and> rest w = R"

lemma db_holds_length: "db_holds d s F R w \<Longrightarrow> length s = unat (db_size d)"
  by (auto simp: db_holds_def db_inv_def content_def word_le_nat_alt)

lemma db_holds_capacity: "db_holds d s F R w \<Longrightarrow> length s \<le> unat (db_capacity d)"
  by (auto simp: db_holds_def db_inv_def content_def word_le_nat_alt)

lemma db_holds_log [simp]: "db_holds d s F R (w\<lparr>log_out := l\<rparr>) = db_holds d s F R w"
  by (simp add: db_holds_def heap_ok_def)

lemma db_holds_rest: "db_holds d s F R w \<Longrightarrow> rest w = R"
  by (simp add: db_holds_def)

section \<open>Growing\<close>

text \<open>Growing never changes the content and never shrinks the block. It fails only when the
  allocation does, and then the buffer is as it was.\<close>

lemma wp_grow_buffer:
  assumes h: "db_holds d s F R w"
    and Q: "\<And>d' w'. db_holds d' s F R w' \<Longrightarrow> db_size d' = db_size d \<Longrightarrow> sb_ptr d' = sb_ptr d \<Longrightarrow>
      (if db_size d + n > db_capacity d
       then if malloc_ok E (n_malloc w) then db_capacity d' = db_size d + n else d' = d
       else d' = d \<and> w' = w) \<Longrightarrow> Q d' w'"
  shows "wp (grow_buffer d n) Q E w"
proof (cases "db_size d + n > db_capacity d")
  case False
  with Q [OF h] show ?thesis by (simp add: grow_buffer_def)
next
  case True
  from h have live: "buf_ptr d \<in> live w" and fresh: "n_malloc w \<notin> live w"
    using heap_ok_fresh [of w] by (auto simp: db_holds_def)
  show ?thesis
  proof (cases "malloc_ok E (n_malloc w)")
    case ok: True
    let ?d = "d\<lparr>buf_ptr := n_malloc w, db_capacity := db_size d + n,
      db_buffer := db_buffer d @ fresh_bytes E (unat (db_capacity d))
        (unat (db_size d + n) - unat (db_capacity d))\<rparr>"
    let ?w = "w\<lparr>n_malloc := Suc (n_malloc w), live := insert (n_malloc w) (live w - {buf_ptr d}),
      log_out := logged LOG_DEBUG False ''allocated more memory, from %zu to %zu'' E
        (w\<lparr>n_malloc := Suc (n_malloc w), live := insert (n_malloc w) (live w - {buf_ptr d})\<rparr>)\<rparr>"
    have "db_holds ?d s F R ?w"
      using h True fresh
      by (auto simp: db_holds_def db_inv_def content_def heap_ok_def word_less_nat_alt word_le_nat_alt
          less_Suc_eq)
    then have "Q ?d ?w" by (rule Q) (simp_all add: True ok)
    with True ok live show ?thesis by (simp add: grow_buffer_def wp_simps)
  next
    case fail: False
    have "db_holds d s F R (w\<lparr>n_malloc := Suc (n_malloc w), log_out := l\<rparr>)" for l
      using h by (auto simp: db_holds_def heap_ok_def less_Suc_eq)
    then have "Q d (w\<lparr>n_malloc := Suc (n_malloc w), log_out := l\<rparr>)" for l
      by (rule Q) (simp_all add: True fail)
    with True fail live show ?thesis by (simp add: grow_buffer_def wp_simps)
  qed
qed

section \<open>Appending\<close>

text \<open>Storing bytes that fit at the end.\<close>

lemma db_holds_store_prefix:
  assumes h: "db_holds d s F R w" and fit: "length s + length bs \<le> unat (db_capacity d)"
    and k: "k \<le> length bs"
  shows "db_holds (d\<lparr>db_buffer := overwrite (db_buffer d) (unat (db_size d)) bs,
                     db_size := db_size d + of_nat k\<rparr>) (s @ take k bs) F R w"
proof -
  from h have len: "length s = unat (db_size d)" by (rule db_holds_length)
  with fit k have "unat (db_size d) + k \<le> unat (db_capacity d)" by simp
  then have sum: "unat (db_size d + of_nat k) = unat (db_size d) + k"
    by (intro unat_add_of_nat unat_le_lt)
  from h have "length (db_buffer d) = unat (db_capacity d)" by (simp add: db_holds_def db_inv_def)
  with h fit k len sum show ?thesis
    by (simp add: db_holds_def db_inv_def content_def word_le_nat_alt take_overwrite_prefix)
qed

lemmas db_holds_store = db_holds_store_prefix [where k = "length bs" and bs = bs for bs, simplified]

lemma db_holds_room: "db_holds d s F R w \<Longrightarrow> length s + n \<le> unat (db_capacity d) \<Longrightarrow> unat (db_size d) + n \<le> length (db_buffer d)"
  using db_holds_length [of d s F R w] by (simp add: db_holds_def db_inv_def)

lemma can_fit_iff:
  "db_holds d s F R w \<Longrightarrow> can_fit d n \<longleftrightarrow> length s + unat n \<le> unat (db_capacity d)"
  using db_holds_length [of d s F R w] db_holds_capacity [of d s F R w]
  by (auto simp: can_fit_def word_le_nat_alt unat_diff_le db_holds_def db_inv_def)

lemma grown_fits:
  assumes h: "db_holds d s F R w"
    and room: "length s + unat n \<le> unat (db_capacity d) \<or> ok \<and> length s + unat n < 2 ^ 64"
    and g: "if db_size d + n > db_capacity d
       then if ok then db_capacity d' = db_size d + n else d' = d
       else d' = d \<and> w' = w"
  shows "length s + unat n \<le> unat (db_capacity d')"
proof -
  have len: "length s = unat (db_size d)" using h by (rule db_holds_length)
  have "length s + unat n < 2 ^ 64" using room by (auto dest: unat_le_lt simp del: power_numeral)
  then have "unat (db_size d + n) = length s + unat n" by (simp add: len unat_add_small)
  with g room show ?thesis by (auto simp: word_less_nat_alt not_less split: if_splits)
qed

text \<open>The full contract of \<open>append\<close>: all of the bytes or none, whatever the sizes and the heap;
  all of them whenever they fit or the allocation succeeds.\<close>

lemma wp_append:
  assumes h: "db_holds d s F R w" and src: "unat n \<le> length x"
    and all: "\<And>d' w'. db_holds d' (s @ take (unat n) x) F R w' \<Longrightarrow> Q (n, Some d') w'"
    and none: "\<And>d' w'. db_holds d' s F R w' \<Longrightarrow>
      \<not> (length s + unat n \<le> unat (db_capacity d) \<or> malloc_ok E (n_malloc w) \<and> length s + unat n < 2 ^ 64) \<Longrightarrow>
      Q (0, Some d') w'"
  shows "wp (dynamic_buffer_append (Some d) (Some x) n) Q E w"
proof -
  have "wp (grow_buffer d n) (\<lambda>d' w'.
      if can_fit d' n
      then Q (n, Some (d'\<lparr>db_buffer := overwrite (db_buffer d') (unat (db_size d')) (take (unat n) x),
                         db_size := db_size d' + n\<rparr>)) w' \<and> unat (db_size d') + unat n \<le> length (db_buffer d')
      else Q (0, Some d') w') E w"
  proof (rule wp_grow_buffer [OF h])
    fix d' w'
    assume h': "db_holds d' s F R w'" and g: "if db_size d + n > db_capacity d
       then if malloc_ok E (n_malloc w) then db_capacity d' = db_size d + n else d' = d
       else d' = d \<and> w' = w"
    show "if can_fit d' n
      then Q (n, Some (d'\<lparr>db_buffer := overwrite (db_buffer d') (unat (db_size d')) (take (unat n) x),
                         db_size := db_size d' + n\<rparr>)) w' \<and> unat (db_size d') + unat n \<le> length (db_buffer d')
      else Q (0, Some d') w'"
    proof (cases "can_fit d' n")
      case True
      then have fit: "length s + unat n \<le> unat (db_capacity d')" by (simp add: can_fit_iff [OF h'])
      then have "unat (db_size d') + unat n \<le> length (db_buffer d')"
        using h' db_holds_length [OF h'] by (simp add: db_holds_def db_inv_def)
      moreover have "Q (n, Some (d'\<lparr>db_buffer := overwrite (db_buffer d') (unat (db_size d')) (take (unat n) x),
                         db_size := db_size d' + n\<rparr>)) w'"
        using db_holds_store [OF h', of "take (unat n) x"] fit src by (intro all) simp
      ultimately show ?thesis using True by simp
    next
      case False
      have "\<not> (length s + unat n \<le> unat (db_capacity d) \<or> malloc_ok E (n_malloc w) \<and> length s + unat n < 2 ^ 64)"
        using False grown_fits [OF h _ g]
        by (auto simp: can_fit_iff [OF h'])
      from none [OF h' this] have "Q (0, Some d') w'" .
      with False show ?thesis by simp
    qed
  qed
  then show ?thesis
    by (simp add: dynamic_buffer_append_def)
      (rule wp_mono, assumption, use src in \<open>auto simp: mem_write_ok split: if_splits\<close>)
qed

text \<open>Enough room for \<open>n\<close> more bytes: they fit, or the next allocation succeeds.\<close>

definition has_room :: "env \<Rightarrow> world \<Rightarrow> DynamicBuffer \<Rightarrow> string \<Rightarrow> nat \<Rightarrow> bool" where
  "has_room E w d s n \<longleftrightarrow>
     length s + n \<le> unat (db_capacity d) \<or> malloc_ok E (n_malloc w) \<and> length s + n < 2 ^ 64"

lemma has_room_alloc: "alloc_ok E \<Longrightarrow> length s + n < 2 ^ 64 \<Longrightarrow> has_room E w d s n"
  by (simp add: has_room_def)

lemma wp_append_string_room:
  assumes h: "db_holds d s F R w" and room: "has_room E w d s (length (cstr x))"
    and small: "length (cstr x) < 2 ^ 64"
    and Q: "\<And>d' w'. db_holds d' (s @ cstr x) F R w' \<Longrightarrow> Q (of_nat (length (cstr x)), Some d') w'"
  shows "wp (dynamic_buffer_append_string (Some d) (Some x)) Q E w"
proof -
  have n: "unat (of_nat (length (cstr x)) :: size_t) = length (cstr x)"
    using small by (rule unat_of_nat_small)
  have t: "take (length (cstr x)) x = cstr x"
    by (simp add: cstr_def takeWhile_eq_take [symmetric])
  have "wp (dynamic_buffer_append (Some d) (Some x) (of_nat (length (cstr x)))) Q E w"
  proof (rule wp_append [OF h])
    show "unat (of_nat (length (cstr x)) :: size_t) \<le> length x" by (simp add: n length_cstr)
    show "Q (of_nat (length (cstr x)), Some d') w'"
      if "db_holds d' (s @ take (unat (of_nat (length (cstr x)) :: size_t)) x) F R w'" for d' w'
      using that by (intro Q) (simp add: n t)
    show "Q (0, Some d') w'" if "\<not> (length s + unat (of_nat (length (cstr x)) :: size_t) \<le> unat (db_capacity d) \<or>
        malloc_ok E (n_malloc w) \<and> length s + unat (of_nat (length (cstr x)) :: size_t) < 2 ^ 64)" for d' w'
      using that room by (simp add: n has_room_def)
  qed
  then show ?thesis by (simp add: dynamic_buffer_append_string_def strlen_def)
qed

lemma wp_append_string:
  assumes "alloc_ok E" and "db_holds d s F R w" and "length s + length (cstr x) < 2 ^ 64"
    and "\<And>d' w'. db_holds d' (s @ cstr x) F R w' \<Longrightarrow> Q (of_nat (length (cstr x)), Some d') w'"
  shows "wp (dynamic_buffer_append_string (Some d) (Some x)) Q E w"
  using assms by (intro wp_append_string_room has_room_alloc) auto

lemma wp_append_number_room:
  assumes h: "db_holds d s F R w" and room: "has_room E w d s 20"
    and Q: "\<And>d' w'. db_holds d' (s @ number_text (unat n)) F R w' \<Longrightarrow>
      Q (of_nat (length (dec (unat n))), Some d') w'"
  shows "wp (dynamic_buffer_append_number (Some d) n) Q E w"
proof -
  let ?bs = "snprintf_bytes 20 (dec (unat n))"
  have len: "length ?bs \<le> 20" "length (dec (unat n)) \<le> length ?bs"
    using length_dec_size_t [of n] by (simp_all add: snprintf_bytes_def)
  have "wp (grow_buffer d 20) (\<lambda>d' w'.
      unat (db_size d') + length ?bs \<le> length (db_buffer d') \<and>
      Q (of_nat (length (dec (unat n))), Some (d'\<lparr>db_buffer := overwrite (db_buffer d') (unat (db_size d')) ?bs,
         db_size := db_size d' + of_nat (length (dec (unat n)))\<rparr>)) w') E w"
  proof (rule wp_grow_buffer [OF h])
    fix d' w'
    assume h': "db_holds d' s F R w'" and g: "if db_size d + 20 > db_capacity d
       then if malloc_ok E (n_malloc w) then db_capacity d' = db_size d + 20 else d' = d
       else d' = d \<and> w' = w"
    have "length s + 20 \<le> unat (db_capacity d')"
      using grown_fits [OF h _ g] room by (simp add: has_room_def)
    with len have fit: "length s + length ?bs \<le> unat (db_capacity d')" by simp
    have "unat (db_size d') + length ?bs \<le> length (db_buffer d')"
      using h' fit by (rule db_holds_room)
    moreover have "db_holds (d'\<lparr>db_buffer := overwrite (db_buffer d') (unat (db_size d')) ?bs,
         db_size := db_size d' + of_nat (length (dec (unat n)))\<rparr>) (s @ number_text (unat n)) F R w'"
      using db_holds_store_prefix [OF h' fit len(2)] by (simp add: number_text_snprintf unat_size_t_lt del: power_numeral)
    ultimately show "unat (db_size d') + length ?bs \<le> length (db_buffer d') \<and>
      Q (of_nat (length (dec (unat n))), Some (d'\<lparr>db_buffer := overwrite (db_buffer d') (unat (db_size d')) ?bs,
         db_size := db_size d' + of_nat (length (dec (unat n)))\<rparr>)) w'"
      by (auto intro: Q)
  qed
  then show ?thesis
    by (simp add: dynamic_buffer_append_number_def Let_def)
      (rule wp_mono, assumption, auto simp: mem_write_ok)
qed

lemma wp_append_number:
  assumes "alloc_ok E" and "db_holds d s F R w" and "length s + 20 < 2 ^ 64"
    and "\<And>d' w'. db_holds d' (s @ number_text (unat n)) F R w' \<Longrightarrow> Q (of_nat (length (dec (unat n))), Some d') w'"
  shows "wp (dynamic_buffer_append_number (Some d) n) Q E w"
  using assms by (intro wp_append_number_room has_room_alloc) auto

section \<open>Creating and destroying\<close>

lemma wp_dynamic_buffer_ini:
  assumes ok: "malloc_ok E (n_malloc w)" "malloc_ok E (Suc (n_malloc w))"
    and heap: "heap_ok w"
    and c: "c = (if n < 1 then DEFAULT_INITIAL_CAPACITY else n)" "c < 2 ^ 64"
    and Q: "\<And>d w'. db_holds d [] (live w) (rest w) w' \<Longrightarrow> db_capacity d = of_int c \<Longrightarrow>
      n_malloc w' = Suc (Suc (n_malloc w)) \<Longrightarrow> Q (Some d) w'"
  shows "wp (dynamic_buffer_ini n) Q E w"
proof -
  let ?d = "\<lparr>sb_ptr = n_malloc w, buf_ptr = Suc (n_malloc w), db_capacity = of_int c, db_size = 0,
    db_buffer = fresh_bytes E 0 (unat (of_int c :: size_t))\<rparr>"
  have fresh: "n_malloc w \<notin> live w" "Suc (n_malloc w) \<notin> live w"
    using heap by (auto simp: heap_ok_def)
  have "Q (Some ?d) w'" if "n_malloc w' = Suc (Suc (n_malloc w))"
    "live w' = insert (Suc (n_malloc w)) (insert (n_malloc w) (live w))" "rest w' = rest w" for w'
  proof (rule Q)
    show "db_holds ?d [] (live w) (rest w) w'"
      using fresh heap that
      by (auto simp: db_holds_def db_inv_def content_def heap_ok_def less_Suc_eq)
  qed (use that in simp_all)
  with ok c(1) show ?thesis
    by (cases "n < 1") (simp_all add: dynamic_buffer_ini_def wp_simps)
qed

lemma wp_dynamic_buffer_destroy:
  assumes "db_holds d s F R w"
    and "\<And>w'. live w' = F \<Longrightarrow> heap_ok w' \<Longrightarrow> rest w' = R \<Longrightarrow> Q () w'"
  shows "wp (dynamic_buffer_destroy (Some d)) Q E w"
  using assms
  by (auto simp: dynamic_buffer_destroy_def wp_simps db_holds_def heap_ok_def intro!: assms(2))

section \<open>Reading from files and descriptors\<close>

lemma db_holds_available:
  "db_holds d s F R w \<Longrightarrow> unat (db_capacity d - db_size d) = unat (db_capacity d) - length s"
  using db_holds_length [of d s F R w] by (simp add: db_holds_def db_inv_def unat_diff_le)

lemma db_holds_clear:
  "db_holds d s F R w \<Longrightarrow> db_holds (d\<lparr>db_size := 0\<rparr>) [] F R w"
  by (simp add: db_holds_def db_inv_def content_def)

lemma db_holds_full_iff: "db_holds d s F R w \<Longrightarrow> db_size d = db_capacity d \<longleftrightarrow> length s = unat (db_capacity d)"
  using db_holds_length [of d s F R w] by (simp add: word_unat_eq_iff)

lemma db_holds_empty_iff: "db_holds d s F R w \<Longrightarrow> db_size d = 0 \<longleftrightarrow> s = []"
  using db_holds_length [of d s F R w] by (auto simp: unsigned_eq_0_iff)

text \<open>A chunk: as much of the file as fits; the capacity and the state are as before.\<close>

lemma wp_append_file_chunked:
  assumes h: "db_holds d s F R w"
    and Q: "\<And>d'. db_holds d' (s @ take (unat (db_capacity d) - length s) f) F R w \<Longrightarrow>
      db_capacity d' = db_capacity d \<Longrightarrow>
      Q (of_nat (length (take (unat (db_capacity d) - length s) f)), Some d',
         Some (drop (unat (db_capacity d) - length s) f)) w"
  shows "wp (dynamic_buffer_append_file_chunked (Some d) (Some f)) Q E w"
proof -
  let ?k = "unat (db_capacity d) - length s"
  have fit: "length s + length (take ?k f) \<le> unat (db_capacity d)"
    using db_holds_capacity [OF h] by simp
  note store = db_holds_store [OF h fit] and room = db_holds_room [OF h fit]
  from Q [OF store] show ?thesis
    using room
    by (simp add: dynamic_buffer_append_file_chunked_def fread_def Let_def db_holds_available [OF h] mem_write_ok)
qed

text \<open>\<open>append_file\<close> reads at most \<open>n\<close> bytes of the file, and nothing when the buffer cannot grow.\<close>

lemma wp_append_file:
  assumes h: "db_holds d s F R w" and room: "has_room E w d s (unat n)"
    and Q: "\<And>d' w'. db_holds d' (s @ take (unat n) f) F R w' \<Longrightarrow>
      Q (of_nat (length (take (unat n) f)), Some d', Some (drop (unat n) f)) w'"
  shows "wp (dynamic_buffer_append_file (Some d) (Some f) n) Q E w"
proof -
  have "wp (grow_buffer d n) (\<lambda>d' w'. can_fit d' n \<and>
      unat (db_size d') + length (take (unat n) f) \<le> length (db_buffer d') \<and>
      db_holds (d'\<lparr>db_buffer := overwrite (db_buffer d') (unat (db_size d')) (take (unat n) f),
         db_size := db_size d' + of_nat (length (take (unat n) f))\<rparr>) (s @ take (unat n) f) F R w') E w"
  proof (rule wp_grow_buffer [OF h])
    fix d' w'
    assume h': "db_holds d' s F R w'" and g: "if db_size d + n > db_capacity d
       then if malloc_ok E (n_malloc w) then db_capacity d' = db_size d + n else d' = d
       else d' = d \<and> w' = w"
    have r: "length s + unat n \<le> unat (db_capacity d')"
      using grown_fits [OF h _ g] room by (simp add: has_room_def)
    then have fit: "length s + length (take (unat n) f) \<le> unat (db_capacity d')" by simp
    show "can_fit d' n \<and>
      unat (db_size d') + length (take (unat n) f) \<le> length (db_buffer d') \<and>
      db_holds (d'\<lparr>db_buffer := overwrite (db_buffer d') (unat (db_size d')) (take (unat n) f),
         db_size := db_size d' + of_nat (length (take (unat n) f))\<rparr>) (s @ take (unat n) f) F R w'"
      using r by (intro conjI db_holds_room [OF h' fit] db_holds_store [OF h' fit]) (simp add: can_fit_iff [OF h'])
  qed
  then show ?thesis
    by (simp add: dynamic_buffer_append_file_def fread_def Let_def)
      (rule wp_mono, assumption, auto simp: mem_write_ok intro: Q [simplified])
qed

text \<open>
  Reading a descriptor to its end. \<open>pipe_bytes\<close> are the events of a pipe whose writer writes
  \<open>cs\<close> chunk by chunk and closes it. Each pass reads at least one byte until the end, so one
  pass more than there are bytes is enough.
\<close>

definition pipe_bytes :: "string list \<Rightarrow> rd list" where
  "pipe_bytes cs = map Bytes cs @ [Eof]"

lemma wp_sys_read_bytes:
  assumes "n > 0" and "pending w fd = pipe_bytes (c # cs)"
  shows "wp (sys_read fd n) Q E w =
     (if length c \<le> n then Q (Got c) (set_pending fd (pipe_bytes cs) w)
      else Q (Got (take n c)) (set_pending fd (pipe_bytes (drop n c # cs)) w))"
  using assms by (simp add: wp_def sys_read_def pipe_bytes_def)

lemma wp_sys_read_eof:
  assumes "n > 0" and "pending w fd = pipe_bytes []"
  shows "wp (sys_read fd n) Q E w = Q (Got []) w"
  using assms by (simp add: wp_def sys_read_def pipe_bytes_def)

lemma wp_sys_read_fail:
  "n > 0 \<Longrightarrow> pending w fd = Fail e # es \<Longrightarrow> wp (sys_read fd n) Q E w = Q (Err e) (set_pending fd es w)"
  by (simp add: wp_def sys_read_def)

lemma wp_sys_read_at_end:
  "n > 0 \<Longrightarrow> pending w fd = Eof # es \<Longrightarrow> wp (sys_read fd n) Q E w = Q (Got []) w"
  by (simp add: wp_def sys_read_def)

lemma db_holds_pending:
  "db_holds d s F R w \<Longrightarrow> db_holds d s F (set_pending fd es R) (set_pending fd es w)"
  by (auto simp: db_holds_def heap_ok_def)

lemma wp_grow_if_full:
  assumes alloc: "alloc_ok E" and h: "db_holds d s F R w" and small: "length s + 256 < 2 ^ 64"
    and Q: "\<And>d' w'. db_holds d' s F R w' \<Longrightarrow> length s < unat (db_capacity d') \<Longrightarrow> Q d' w'"
  shows "wp (if db_size d = db_capacity d then grow_buffer d (of_int DEFAULT_FD_BUFFER) else return d) Q E w"
proof (cases "db_size d = db_capacity d")
  case False
  then have "length s < unat (db_capacity d)"
    using db_holds_full_iff [OF h] db_holds_capacity [OF h] by simp
  with False Q [OF h] show ?thesis by simp
next
  case True
  have "wp (grow_buffer d 256) Q E w"
  proof (rule wp_grow_buffer [OF h])
    fix d' w'
    assume h': "db_holds d' s F R w'" and g: "if db_size d + 256 > db_capacity d
       then if malloc_ok E (n_malloc w) then db_capacity d' = db_size d + 256 else d' = d
       else d' = d \<and> w' = w"
    have "length s + unat (256 :: size_t) \<le> unat (db_capacity d')"
      using alloc small by (intro grown_fits [OF h _ g]) simp
    then show "Q d' w'" by (intro Q [OF h']) simp
  qed
  with True show ?thesis by (simp add: DEFAULT_FD_BUFFER_def)
qed

lemma wp_append_fd_pass:
  assumes alloc: "alloc_ok E" and h: "db_holds d s F R w"
    and fit: "length s + length bs \<le> unat (db_capacity d)" and small: "length s + length bs + 256 < 2 ^ 64"
    and Q: "\<And>d' w'. db_holds d' (s @ bs) F R w' \<Longrightarrow> length (s @ bs) < unat (db_capacity d') \<Longrightarrow> Q d' w'"
  shows "wp (append_fd_pass d (Got bs)) Q E w"
proof -
  let ?d = "d\<lparr>db_buffer := overwrite (db_buffer d) (unat (db_size d)) bs, db_size := db_size d + of_nat (length bs)\<rparr>"
  have "db_holds ?d (s @ bs) F R (w\<lparr>log_out := l\<rparr>)" for l
    using db_holds_store [OF h fit] by simp
  then have "wp (if db_size ?d = db_capacity ?d then grow_buffer ?d (of_int DEFAULT_FD_BUFFER) else return ?d)
      Q E (w\<lparr>log_out := l\<rparr>)" for l
    using small by (intro wp_grow_if_full [OF alloc _ _ Q]) auto
  then show ?thesis
    using mem_write_ok [OF db_holds_room [OF h fit]]
    by (simp add: append_fd_pass_def read_bytes_def read_count_def wp_print Let_def del: wp_if)
qed

text \<open>What one \<open>read\<close> of at least one byte does to a pipe.\<close>

lemma wp_sys_read_pipe:
  assumes "n > 0" and "pending w fd = pipe_bytes cs" and "cs \<noteq> []" and "[] \<notin> set cs"
    and "\<And>bs cs'. concat cs = bs @ concat cs' \<Longrightarrow> [] \<notin> set cs' \<Longrightarrow> bs \<noteq> [] \<Longrightarrow> length bs \<le> n \<Longrightarrow>
      Q (Got bs) (set_pending fd (pipe_bytes cs') w)"
  shows "wp (sys_read fd n) Q E w"
proof -
  from assms(3) obtain c cs' where cs: "cs = c # cs'" by (cases cs) auto
  then have c: "c \<noteq> []" and rest: "[] \<notin> set cs'" using assms(4) by auto
  show ?thesis
  proof (cases "length c \<le> n")
    case True
    with assms(1,2) assms(5) [of c cs'] cs c rest show ?thesis by (simp add: wp_sys_read_bytes)
  next
    case False
    with assms(1,2) assms(5) [of "take n c" "drop n c # cs'"] cs c rest show ?thesis
      by (simp add: wp_sys_read_bytes)
  qed
qed

lemma read_count_pos: "bs \<noteq> [] \<Longrightarrow> length bs < 2 ^ 64 \<Longrightarrow> read_count (Got bs) > 0"
  using unat_of_nat_small [of "length bs"] by (simp add: word_less_nat_alt read_count_def del: power_numeral)

lemma wp_append_fd_loop:
  assumes alloc: "alloc_ok E"
  shows "db_holds d s F R w \<Longrightarrow> length s < unat (db_capacity d) \<Longrightarrow>
    pending w fd = pipe_bytes cs \<Longrightarrow> [] \<notin> set cs \<Longrightarrow> length (concat cs) < passes \<Longrightarrow>
    length s + length (concat cs) + 256 < 2 ^ 64 \<Longrightarrow>
    (\<And>d' w'. db_holds d' (s @ concat cs) F (set_pending fd (pipe_bytes []) R) w' \<Longrightarrow>
       Q (acc + of_nat (length (concat cs)), d') w') \<Longrightarrow>
    wp (dynamic_buffer_append_fd_loop passes d fd acc) Q E w"
proof (induction passes arbitrary: d s R w cs acc)
  case 0
  then show ?case by simp
next
  case (Suc passes)
  note h = Suc.prems(1) and avail = db_holds_available [OF Suc.prems(1)]
  have pos: "0 < unat (db_capacity d - db_size d)" using Suc.prems(2) avail by simp
  have RR: "pending R = pending w" using db_holds_rest [OF h] by auto
  show ?case
  proof (cases "cs = []")
    case True
    have "set_pending fd (pipe_bytes []) R = R"
      using Suc.prems(3) True RR by simp
    then have "db_holds d' s F R w' \<Longrightarrow> Q (acc, d') w'" for d' w'
      using Suc.prems(7) [of d' w'] True by (simp only: concat.simps append_Nil2 list.size semiring_1_class.of_nat_0 add_0_right)
    then have "wp (append_fd_pass d (Got [])) (\<lambda>d' w'. Q (acc, d') w') E w"
      using Suc.prems(2,6) True by (intro wp_append_fd_pass [OF alloc h]) auto
    with True pos Suc.prems(3) show ?thesis
      by (simp add: wp_sys_read_eof read_count_def)
  next
    case False
    show ?thesis
      unfolding dynamic_buffer_append_fd_loop.simps wp_bind
    proof (rule wp_sys_read_pipe [OF pos Suc.prems(3) False Suc.prems(4)])
      fix bs cs'
      assume bs: "concat cs = bs @ concat cs'" "[] \<notin> set cs'" "bs \<noteq> []"
        "length bs \<le> unat (db_capacity d - db_size d)"
      let ?R = "set_pending fd (pipe_bytes cs') R"
      let ?w = "set_pending fd (pipe_bytes cs') w"
      show "wp (append_fd_pass d (Got bs)) (\<lambda>d'. wp (if read_count (Got bs) > 0
             then dynamic_buffer_append_fd_loop passes d' fd (acc + read_count (Got bs))
             else return (acc + read_count (Got bs), d')) Q E) E ?w"
      proof (rule wp_append_fd_pass [OF alloc db_holds_pending [OF h]])
        fix d' w'
        assume h': "db_holds d' (s @ bs) F ?R w'" and cap: "length (s @ bs) < unat (db_capacity d')"
        have "wp (dynamic_buffer_append_fd_loop passes d' fd (acc + read_count (Got bs))) Q E w'"
        proof (rule Suc.IH [OF h' cap _ bs(2)])
          show "pending w' fd = pipe_bytes cs'"
            using rest_sel(3) [of w', symmetric] unfolding db_holds_rest [OF h'] by simp
          show "Q (acc + read_count (Got bs) + of_nat (length (concat cs')), d'') w''"
            if "db_holds d'' ((s @ bs) @ concat cs') F (set_pending fd (pipe_bytes []) ?R) w''" for d'' w''
            using Suc.prems(7) [of d'' w''] that bs(1) by (simp add: read_count_def add.assoc)
        qed (use Suc.prems(5,6) bs(1,3) in \<open>cases bs; simp\<close>)+
        with read_count_pos [OF bs(3) unat_le_lt [OF bs(4)]]
        show "wp (if read_count (Got bs) > 0
             then dynamic_buffer_append_fd_loop passes d' fd (acc + read_count (Got bs))
             else return (acc + read_count (Got bs), d')) Q E w'" by simp
      qed (use Suc.prems(2,6) bs avail in simp_all)
    qed
  qed
qed

interpretation dynbuf: byte_sink db_holds dynamic_buffer_append_string dynamic_buffer_append_number
  dynamic_buffer_get_buffer dynamic_buffer_get_size dynamic_buffer_destroy
proof unfold_locales
  fix E d s F R w x and Q :: "size_t \<times> DynamicBuffer option \<Rightarrow> world \<Rightarrow> bool"
  assume "alloc_ok E" and "db_holds d s F R w" and "length s + length (cstr x) < 2 ^ 64"
    and "\<And>r d' w'. db_holds d' (s @ cstr x) F R w' \<Longrightarrow> Q (r, Some d') w'"
  then show "wp (dynamic_buffer_append_string (Some d) (Some x)) Q E w"
    by (rule wp_append_string)
next
  fix E d s F R w and n :: size_t and Q :: "size_t \<times> DynamicBuffer option \<Rightarrow> world \<Rightarrow> bool"
  assume "alloc_ok E" and "db_holds d s F R w" and "length s + 20 < 2 ^ 64"
    and "\<And>r d' w'. db_holds d' (s @ number_text (unat n)) F R w' \<Longrightarrow> Q (r, Some d') w'"
  then show "wp (dynamic_buffer_append_number (Some d) n) Q E w"
    by (rule wp_append_number)
next
  fix d s F R w
  assume h: "db_holds d s F R w"
  then have "db_buffer d = s @ drop (unat (db_size d)) (db_buffer d)"
    by (auto simp: db_holds_def content_def)
  with db_holds_length [OF h]
  show "\<exists>tail. dynamic_buffer_get_buffer (Some d) = Some (s @ tail) \<and>
      unat (dynamic_buffer_get_size (Some d)) = length s"
    by (auto simp: dynamic_buffer_get_buffer_def dynamic_buffer_get_size_def)
next
  fix d s F R w E and Q :: "unit \<Rightarrow> world \<Rightarrow> bool"
  assume "db_holds d s F R w"
    and "\<And>w'. live w' = F \<Longrightarrow> heap_ok w' \<Longrightarrow> rest w' = R \<Longrightarrow> Q () w'"
  then show "wp (dynamic_buffer_destroy (Some d)) Q E w"
    by (rule wp_dynamic_buffer_destroy)
qed

section \<open>Properties\<close>

text \<open>A buffer of four bytes holding two, in a state with its two blocks, for the witnesses.\<close>

definition demo_buffer :: DynamicBuffer where
  "demo_buffer = \<lparr>sb_ptr = 0, buf_ptr = 1, db_capacity = 4, db_size = 2, db_buffer = ''abcd''\<rparr>"

definition demo_heap :: world where
  "demo_heap = demo_world\<lparr>n_malloc := 2, live := {0, 1}\<rparr>"

lemma demo_holds: "db_holds demo_buffer ''ab'' {} (rest demo_heap) demo_heap"
  by (simp add: db_holds_def demo_buffer_def demo_heap_def db_inv_def content_def heap_ok_def)

lemma demo_alloc_ok: "alloc_ok demo_env"
  by (simp add: alloc_ok_def)

text \<open>C14: \<open>dynamic_buffer_append\<close> appends all of the bytes or none of them, and says which by the size
  it returns; none only when they do not fit and the buffer cannot grow, because the allocation fails
  or the size of both does not fit a \<open>size_t\<close>. What was in the buffer, the other blocks and the rest of
  the process stay as they are.\<close>

theorem append_all_or_nothing:
  assumes "db_holds d s F R w" and "unat n \<le> length x"
  shows "\<exists>k d' w'. dynamic_buffer_append (Some d) (Some x) n E w = Ret ((k, Some d'), w') \<and>
    (k = n \<and> db_holds d' (s @ take (unat n) x) F R w' \<or>
     k = 0 \<and> db_holds d' s F R w' \<and> unat (db_capacity d) < length s + unat n \<and>
       (\<not> malloc_ok E (n_malloc w) \<or> 2 ^ 64 \<le> length s + unat n))"
proof -
  have "wp (dynamic_buffer_append (Some d) (Some x) n) (\<lambda>(k, d') w'. \<exists>b. d' = Some b \<and>
    (k = n \<and> db_holds b (s @ take (unat n) x) F R w' \<or>
     k = 0 \<and> db_holds b s F R w' \<and> unat (db_capacity d) < length s + unat n \<and>
       (\<not> malloc_ok E (n_malloc w) \<or> 2 ^ 64 \<le> length s + unat n))) E w"
    using assms by (intro wp_append) (auto simp: not_le not_less simp del: power_numeral)
  then show ?thesis by (elim wpE) auto
qed

theorem append_all_or_nothing_witness:
  "\<exists>k d' w'. dynamic_buffer_append (Some demo_buffer) (Some ''xyz'') 3 demo_env demo_heap = Ret ((k, Some d'), w') \<and>
     k = 3 \<and> db_holds d' ''abxyz'' {} (rest demo_heap) w'"
  using append_all_or_nothing [OF demo_holds, of 3 "''xyz''" demo_env] by auto

text \<open>C35: \<open>dynamic_buffer_append_number\<close> appends the decimal digits of the number, from which the number
  can be read back, as long as it has at most 19 digits. A number of 20 digits loses its last one: the
  size given to \<open>snprintf\<close> counts the terminator, and a NUL byte takes its place.\<close>

theorem append_number_digits:
  assumes "db_holds d s F R w" and "malloc_ok E (n_malloc w)" and "length s + 20 < 2 ^ 64"
  shows "\<exists>k d' w' t. dynamic_buffer_append_number (Some d) n E w = Ret ((k, Some d'), w') \<and>
    db_holds d' (s @ t) F R w' \<and> unat k = length t \<and>
    (if unat n < 10 ^ 19 then undec t = unat n \<and> no_nul t
     else length t = 20 \<and> t = take 19 (dec (unat n)) @ [NUL])"
proof -
  have "wp (dynamic_buffer_append_number (Some d) n) (\<lambda>(k, d') w'. k = of_nat (length (dec (unat n))) \<and>
      (\<exists>b. d' = Some b \<and> db_holds b (s @ number_text (unat n)) F R w')) E w"
    using assms by (intro wp_append_number_room) (auto simp: has_room_def)
  then obtain k d' w' where run: "dynamic_buffer_append_number (Some d) n E w = Ret ((k, Some d'), w')"
    "k = of_nat (length (dec (unat n)))" "db_holds d' (s @ number_text (unat n)) F R w'"
    by (elim wpE) auto
  have "unat k = length (number_text (unat n))"
    using run(2) length_dec_size_t [of n] length_number_text [OF unat_size_t_lt, of n]
    by (simp add: unat_of_nat_small)
  moreover have "length (take 19 (dec (unat n)) @ [NUL]) = 20" if "\<not> unat n < 10 ^ 19"
    using that length_dec_ge [of 19 "unat n"] by simp
  ultimately show ?thesis
    using run by (intro exI [of _ k] exI [of _ d'] exI [of _ w'] exI [of _ "number_text (unat n)"])
      (auto simp: number_text_def undec_dec)
qed

theorem append_number_digits_witness:
  "\<exists>k d' w' t. dynamic_buffer_append_number (Some demo_buffer) (-1) demo_env demo_heap = Ret ((k, Some d'), w') \<and>
     db_holds d' (''ab'' @ t) {} (rest demo_heap) w' \<and> t = take 19 (dec 18446744073709551615) @ [NUL]"
  using append_number_digits [OF demo_holds, of demo_env "-1"] by auto

text \<open>\<open>dynamic_buffer_append_number\<close> does not test whether the buffer grew: when a full buffer cannot
  be enlarged, it writes past the end of the block.\<close>

theorem append_number_overflows:
  assumes "db_holds d s F R w" and "unat (db_capacity d) = length s" and "\<not> malloc_ok E (n_malloc w)"
    and "length s + 20 < 2 ^ 64"
  shows "dynamic_buffer_append_number (Some d) n E w = Undef Out_Of_Bounds"
proof -
  have size: "db_size d = db_capacity d" using assms(1,2) db_holds_full_iff by metis
  have "unat (db_size d + 20) = unat (db_size d) + 20"
    using assms(4) db_holds_length [OF assms(1)] by (subst unat_add_small) simp_all
  then have more: "db_size d + 20 > db_capacity d" by (simp add: size word_less_nat_alt)
  have live: "buf_ptr d \<in> live w" and len: "length (db_buffer d) = unat (db_size d)"
    using assms(1) size by (auto simp: db_holds_def db_inv_def)
  have "mem_write (db_buffer d) (unat (db_size d)) (snprintf_bytes 20 (dec (unat n))) = Undef Out_Of_Bounds"
    using len by (simp add: mem_write_def snprintf_bytes_def)
  with more live assms(3) show ?thesis
    by (simp add: dynamic_buffer_append_number_def bind_def grow_buffer_def realloc_def Let_def lift_def
        print_error_def print_priority_def return_def)
qed

theorem append_number_overflows_witness:
  "dynamic_buffer_append_number (Some (demo_buffer\<lparr>db_size := 4\<rparr>)) 7
     (demo_env\<lparr>malloc_ok := (\<lambda>k. False)\<rparr>) demo_heap = Undef Out_Of_Bounds"
proof (rule append_number_overflows)
  show "db_holds (demo_buffer\<lparr>db_size := 4\<rparr>) ''abcd'' {} (rest demo_heap) demo_heap"
    by (simp add: db_holds_def demo_buffer_def demo_heap_def db_inv_def content_def heap_ok_def)
qed (simp_all add: demo_buffer_def)

text \<open>C26: \<open>dynamic_buffer_append_fd\<close> reads a pipe to its end, whatever the pieces its writer writes, and
  returns their total length: the bytes arrive in order behind what the buffer held. It ends after at most
  one pass more than there are bytes.\<close>

theorem append_fd_reads_everything:
  assumes "alloc_ok E" and "db_holds d s F R w" and "length s < unat (db_capacity d)"
    and "pending w fd = map Bytes chunks @ [Eof]" and "[] \<notin> set chunks"
    and "length (concat chunks) < passes" and "length s + length (concat chunks) + 256 < 2 ^ 64"
  shows "\<exists>k d' w'. dynamic_buffer_append_fd passes (Some d) fd E w = Ret ((k, Some d'), w') \<and>
    unat k = length (concat chunks) \<and>
    db_holds d' (s @ concat chunks) F (set_pending fd [Eof] R) w'"
proof -
  have "wp (dynamic_buffer_append_fd_loop passes d fd 0) (\<lambda>(k, d') w'. unat k = length (concat chunks) \<and>
      db_holds d' (s @ concat chunks) F (set_pending fd [Eof] R) w') E w"
    using assms by (intro wp_append_fd_loop [where cs = chunks]) (auto simp: pipe_bytes_def unat_of_nat_small)
  then obtain k d' w' where "dynamic_buffer_append_fd_loop passes d fd 0 E w = Ret ((k, d'), w')"
    "unat k = length (concat chunks)" "db_holds d' (s @ concat chunks) F (set_pending fd [Eof] R) w'"
    by (elim wpE) auto
  then show ?thesis by (simp add: dynamic_buffer_append_fd_def bind_def return_def)
qed

theorem append_fd_reads_everything_witness:
  "\<exists>k d' w'. dynamic_buffer_append_fd 6 (Some demo_buffer) 3 demo_env (set_pending 3 [Bytes ''xyz'', Bytes ''uv'', Eof] demo_heap)
       = Ret ((k, Some d'), w') \<and> unat k = length (''xyz'' @ ''uv'') \<and>
     db_holds d' ''abxyzuv'' {} (set_pending 3 [Eof] (rest demo_heap)) w'"
  using append_fd_reads_everything [OF demo_alloc_ok db_holds_pending [OF demo_holds, of 3 "[Bytes ''xyz'', Bytes ''uv'', Eof]"], where fd = 3 and chunks = "[''xyz'', ''uv'']" and passes = 6]
  by (simp add: demo_buffer_def)

text \<open>A read that fails is counted as \<open>-1\<close> in a \<open>size_t\<close>: \<open>dynamic_buffer_append_fd\<close> drops the last
  byte the buffer held, goes on reading, and after the end of the stream returns the largest \<open>size_t\<close>.\<close>

theorem append_fd_error_drops_a_byte:
  assumes "db_holds d s F R w" and "s \<noteq> []" and "length s < unat (db_capacity d)"
    and "pending w fd = [Fail e, Eof]"
  shows "\<exists>d' w'. dynamic_buffer_append_fd (Suc (Suc passes)) (Some d) fd E w = Ret ((-1, Some d'), w') \<and>
    db_holds d' (butlast s) F (set_pending fd [Eof] R) w'"
proof -
  let ?d = "d\<lparr>db_size := db_size d - 1\<rparr>"
  have len: "length s = unat (db_size d)" and cap: "length (db_buffer d) = unat (db_capacity d)"
    using db_holds_length [OF assms(1)] assms(1) by (simp_all add: db_holds_def db_inv_def)
  from assms(2) len have one: "1 \<le> db_size d" "db_size d \<noteq> 0"
    by (cases s; auto simp: word_le_nat_alt)+
  have size: "unat (db_size d - 1) = length s - 1" using one len by (simp add: unat_diff_le)
  then have less: "unat (db_size d - 1) < unat (db_capacity d)" using assms(3) by simp
  then have nfull: "db_size d - 1 \<noteq> db_capacity d" by auto
  have n: "0 < unat (db_capacity d - db_size d)" "0 < unat (db_capacity d - (db_size d - 1))"
    using assms(3) len less by (auto simp: unat_diff_le word_le_nat_alt)
  have hold: "db_holds ?d (butlast s) F (set_pending fd [Eof] R) ((set_pending fd [Eof] w)\<lparr>log_out := l\<rparr>)" for l
    using assms(1) size less by (auto simp: db_holds_def db_inv_def content_def heap_ok_def word_le_nat_alt butlast_take)
  have "wp (dynamic_buffer_append_fd (Suc (Suc passes)) (Some d) fd)
      (\<lambda>(k, d') w'. k = -1 \<and> d' = Some ?d \<and> (\<exists>l. w' = (set_pending fd [Eof] w)\<lparr>log_out := l\<rparr>)) E w"
    using n nfull assms(4)
    by (auto simp: dynamic_buffer_append_fd_def append_fd_pass_def read_bytes_def read_count_def mem_write_def
      wp_print wp_sys_read_fail wp_sys_read_at_end Let_def set_pending_log)
  with hold show ?thesis by (elim wpE) auto
qed

theorem append_fd_error_drops_a_byte_witness:
  "\<exists>d' w'. dynamic_buffer_append_fd (Suc (Suc 0)) (Some demo_buffer) 3 demo_env (set_pending 3 [Fail EOTHER, Eof] demo_heap)
       = Ret ((-1, Some d'), w') \<and> db_holds d' ''a'' {} (set_pending 3 [Eof] (rest demo_heap)) w'"
  using append_fd_error_drops_a_byte [OF db_holds_pending [OF demo_holds, of 3 "[Fail EOTHER, Eof]"],
      where fd = 3 and e = EOTHER and passes = 0 and E = demo_env]
  by (simp add: demo_buffer_def)

text \<open>The function \<open>dynamic_buffer_append_file_chunked\<close> never allocates: it takes as much of the file as the
  buffer has room for and leaves the rest for the next chunk.\<close>

theorem append_file_chunked_takes_what_fits:
  assumes "db_holds d s F R w"
  shows "\<exists>k d'. dynamic_buffer_append_file_chunked (Some d) (Some f) E w
      = Ret ((k, Some d', Some (drop (unat (db_capacity d) - length s) f)), w) \<and>
    db_holds d' (s @ take (unat (db_capacity d) - length s) f) F R w \<and> db_capacity d' = db_capacity d \<and>
    unat k = min (length f) (unat (db_capacity d) - length s)"
proof -
  have n: "min (length f) (unat (db_capacity d) - length s) < 2 ^ 64"
    using unat_size_t_lt [of "db_capacity d"] by linarith
  have "wp (dynamic_buffer_append_file_chunked (Some d) (Some f)) (\<lambda>(k, d', f') w'. w' = w \<and>
      (\<exists>b. d' = Some b \<and> db_holds b (s @ take (unat (db_capacity d) - length s) f) F R w \<and> db_capacity b = db_capacity d) \<and>
      f' = Some (drop (unat (db_capacity d) - length s) f) \<and> unat k = min (length f) (unat (db_capacity d) - length s)) E w"
    using n by (intro wp_append_file_chunked [OF assms]) (auto simp: unat_of_nat_small simp del: power_numeral)
  then show ?thesis by (elim wpE) auto
qed

theorem append_file_chunked_takes_what_fits_witness:
  "\<exists>k d'. dynamic_buffer_append_file_chunked (Some demo_buffer) (Some ''xyz'') demo_env demo_heap
       = Ret ((k, Some d', Some ''z''), demo_heap) \<and> db_holds d' ''abxy'' {} (rest demo_heap) demo_heap"
proof -
  have "unat (db_capacity demo_buffer) - length ''ab'' = Suc (Suc 0)" by (simp add: demo_buffer_def)
  then show ?thesis
    using append_file_chunked_takes_what_fits [OF demo_holds, of "''xyz''" demo_env]
    by (simp only: take_Suc_Cons take_0 drop_Suc_Cons drop_0 append.simps) blast
qed

text \<open>Creating a buffer and destroying it gives back every block; but when the second of the two
  allocations of \<open>dynamic_buffer_ini\<close> fails, the block of the struct stays allocated for ever.\<close>

theorem buffer_ini_memory:
  assumes "heap_ok w" and "malloc_ok E (n_malloc w)" and "n < 2 ^ 31"
  shows "if malloc_ok E (Suc (n_malloc w))
    then \<exists>w'. bind (dynamic_buffer_ini n) dynamic_buffer_destroy E w = Ret ((), w') \<and> live w' = live w \<and> rest w' = rest w
    else \<exists>w'. dynamic_buffer_ini n E w = Ret (None, w') \<and> live w' = insert (n_malloc w) (live w) \<and> n_malloc w \<notin> live w"
proof (cases "malloc_ok E (Suc (n_malloc w))")
  case True
  have "wp (bind (dynamic_buffer_ini n) dynamic_buffer_destroy) (\<lambda>_ w'. live w' = live w \<and> rest w' = rest w) E w"
    unfolding wp_bind using assms True
    by (intro wp_dynamic_buffer_ini [OF _ _ _ refl]) (auto simp: DEFAULT_INITIAL_CAPACITY_def intro: wp_dynamic_buffer_destroy)
  then obtain w' where "bind (dynamic_buffer_ini n) dynamic_buffer_destroy E w = Ret ((), w')"
    "live w' = live w" "rest w' = rest w" by (rule wpE) auto
  with True show ?thesis by auto
next
  case False
  have "wp (dynamic_buffer_ini n) (\<lambda>d w'. d = None \<and> live w' = insert (n_malloc w) (live w)) E w"
    using assms False by (simp add: dynamic_buffer_ini_def wp_simps)
  with False heap_ok_fresh [OF assms(1)] show ?thesis by (auto elim!: wpE)
qed

theorem buffer_ini_memory_witness:
  "\<exists>w'. dynamic_buffer_ini 256 (demo_env\<lparr>malloc_ok := (\<lambda>k. k = 0)\<rparr>) demo_world = Ret (None, w') \<and> live w' = {0}"
  using buffer_ini_memory [of demo_world "demo_env\<lparr>malloc_ok := (\<lambda>k. k = 0)\<rparr>" 256] by simp

end
