(* ===== verification/Socket.thy ===== *)
theory Socket
  imports Logging Cstring
begin

text \<open>
  The socket wrapper, srclib/socket/socket.c: opening the listening socket, accepting,
  sending, receiving, the receive timeout and closing. The kernel's answers are the
  environment's; what the functions do with them is the code's.
\<close>

section \<open>Addresses\<close>

datatype sa_family = AF_INET | AF_INET6 | AF_OTHER

text \<open>The string of a peer's address. \<open>inet_ntop\<close>'s text is an argument; the block that holds the
  string is the caller's to free.\<close>

definition ip_to_string :: "sa_family \<Rightarrow> string \<Rightarrow> (nat \<times> string) prog" where
  "ip_to_string sa_family ntop =
     bind malloc (\<lambda>s. case s of
       None \<Rightarrow> undef Null_Deref
     | Some p \<Rightarrow> return (p, if sa_family = AF_INET \<or> sa_family = AF_INET6 then ntop else []))"

section \<open>Opening and accepting\<close>

definition socket_open :: "int \<Rightarrow> int \<Rightarrow> int prog" where
  "socket_open port max_pending_connections =
     (if port < 0 \<or> max_pending_connections < 0
      then bind (print_error ''socket_open arguments must be positive'') (\<lambda>_. return (-1))
      else bind sys_call (\<lambda>created.
        if \<not> created
        then bind (print_error ''failed to create socket: %s'') (\<lambda>_. return (-1))
        else bind new_fd (\<lambda>socket_fd.
          bind sys_call (\<lambda>option_set.
            if \<not> option_set
            then bind (print_error ''failed to set socket's options: %s'') (\<lambda>_. return (-1))
            else bind sys_call (\<lambda>bound.
              if \<not> bound
              then bind (print_error ''failed to bind socket: %s'') (\<lambda>_. return (-1))
              else bind sys_call (\<lambda>listening.
                if \<not> listening
                then bind (print_error ''error setting socket as a passive one: %s'') (\<lambda>_. return (-1))
                else return socket_fd))))))"

definition socket_accept :: "sa_family \<Rightarrow> string \<Rightarrow> int \<Rightarrow> int prog" where
  "socket_accept sa_family ntop socket_fd =
     (if socket_fd < 0
      then bind (print_error ''negative socket_fd passed to socket_accept'') (\<lambda>_. return (-1))
      else bind sys_call (\<lambda>accepted.
        if \<not> accepted
        then bind (print_error ''error accepting connection: %s'') (\<lambda>_. return (-1))
        else bind new_fd (\<lambda>client_fd.
          bind (ip_to_string sa_family ntop) (\<lambda>(client_ip, _).
          bind (print_info ''connection accepted from %s'') (\<lambda>_.
          bind (free client_ip) (\<lambda>_.
          return client_fd))))))"

section \<open>Sending and receiving\<close>

text \<open>The kernel takes a prefix of the buffer, at most \<open>len\<close> bytes, or refuses.\<close>

definition sys_send :: "int \<Rightarrow> string \<Rightarrow> int prog" where
  "sys_send client_fd data = (\<lambda>E w.
     case send_ret E (n_send w) of
       None \<Rightarrow> Ret (-1, w\<lparr>n_send := Suc (n_send w)\<rparr>)
     | Some n \<Rightarrow> Ret (int (min n (length data)),
         w\<lparr>n_send := Suc (n_send w), trace := trace w @ [Sent client_fd (take n data)]\<rparr>))"

definition socket_send :: "int \<Rightarrow> char_ptr \<Rightarrow> size_t \<Rightarrow> int prog" where
  "socket_send client_fd buffer len =
     (case buffer of
        None \<Rightarrow> bind (print_error ''buffer is null in socket_send'') (\<lambda>_. return (-1))
      | Some data \<Rightarrow>
          if length data < unat len then undef Out_Of_Bounds
          else bind (sys_send client_fd (take (unat len) data)) (\<lambda>bytes_sent.
            if bytes_sent = -1
            then bind (print_error ''error sending data through the socket: %s'') (\<lambda>_. return (-1))
            else bind (print_debug ''%d bytes sent'') (\<lambda>_. return bytes_sent)))"

definition socket_send_string :: "int \<Rightarrow> char_ptr \<Rightarrow> int prog" where
  "socket_send_string client_fd string =
     bind (lift (strlen string)) (\<lambda>len. socket_send client_fd string (of_nat len))"

definition socket_receive :: "int \<Rightarrow> size_t \<Rightarrow> (int \<times> string) prog" where
  "socket_receive client_fd len =
     bind (sys_read client_fd (unat len)) (\<lambda>r. case r of
       Err e \<Rightarrow> bind (print_error ''error receiving data from the socket: %s'') (\<lambda>_. return (-1, []))
     | Got bs \<Rightarrow> bind (print_debug ''%d bytes received'') (\<lambda>_. return (int (length bs), bs)))"

text \<open>The parameter \<open>timeout\<close> is an \<open>unsigned int\<close>: a negative argument arrives modulo \<open>2 ^ 32\<close>.\<close>

definition socket_set_timeout :: "int \<Rightarrow> int \<Rightarrow> int prog" where
  "socket_set_timeout client_fd timeout =
     bind sys_call (\<lambda>ok.
       if \<not> ok
       then bind (print_error ''error setting timeout for the socket: %s'') (\<lambda>_. return (-1))
       else bind (emit (Timeout_Set client_fd (nat (timeout mod 2 ^ 32)))) (\<lambda>_. return 0))"

definition socket_close :: "int \<Rightarrow> unit prog" where
  "socket_close socket_fd = sys_close socket_fd"

section \<open>What the callers rely on\<close>

text \<open>The bytes the kernel accepted on a descriptor, in order.\<close>

fun sent_on :: "int \<Rightarrow> os_event list \<Rightarrow> string" where
  "sent_on fd [] = []"
| "sent_on fd (Sent fd' bs # es) = (if fd' = fd then bs else []) @ sent_on fd es"
| "sent_on fd (_ # es) = sent_on fd es"

lemma sent_on_append [simp]: "sent_on fd (es @ es') = sent_on fd es @ sent_on fd es'"
  by (induction fd es rule: sent_on.induct) auto

lemma wp_socket_send [wp_simps]:
  "wp (socket_send fd (Some data) len) Q E w =
     (unat len \<le> length data \<and>
      (case send_ret E (n_send w) of
         None \<Rightarrow> Q (-1) (w\<lparr>n_send := Suc (n_send w),
                     log_out := logged LOG_ERR True ''error sending data through the socket: %s'' E w\<rparr>)
       | Some n \<Rightarrow> Q (int (min n (unat len)))
           (w\<lparr>n_send := Suc (n_send w), trace := trace w @ [Sent fd (take (min n (unat len)) data)],
              log_out := logged LOG_DEBUG False ''%d bytes sent'' E w\<rparr>)))"
  by (auto simp: socket_send_def sys_send_def wp_simps wp_def logged_def bind_def undef_def
        print_error_def print_debug_def print_priority_def return_def min_def take_take
      split: option.splits if_splits)

lemma wp_socket_set_timeout [wp_simps]:
  "wp (socket_set_timeout fd t) Q E w =
     (if call_ok E (n_calls w)
      then Q 0 (w\<lparr>n_calls := Suc (n_calls w), trace := trace w @ [Timeout_Set fd (nat (t mod 2 ^ 32))]\<rparr>)
      else Q (-1) (w\<lparr>n_calls := Suc (n_calls w),
             log_out := logged LOG_ERR True ''error setting timeout for the socket: %s'' E w\<rparr>))"
  by (simp add: socket_set_timeout_def wp_simps logged_def)

lemma wp_socket_close [wp_simps]:
  "wp (socket_close fd) Q E w = Q () (w\<lparr>open_fds := open_fds w - {fd}, trace := trace w @ [Closed fd]\<rparr>)"
  by (simp add: socket_close_def wp_simps)

end
