(* ===== verification/Execute_Scripts.thy ===== *)
theory Execute_Scripts
  imports Dynamic_Buffer Socket
begin

text \<open>
  Running a script, srclib/execute_scripts: two pipes, a child that is the interpreter, its
  input written to one pipe and its output read from the other to its end. The child is
  another process: what it writes is the environment's, given the interpreter, the script,
  its input and the limit the child sets with \<open>alarm\<close> before it becomes the interpreter.
\<close>

section \<open>The code\<close>

text \<open>\<open>pipe\<close>: the read end and the write end.\<close>

definition sys_pipe :: "(int \<times> int) option prog" where
  "sys_pipe = bind sys_call (\<lambda>ok.
     if \<not> ok then return None
     else bind new_fd (\<lambda>r. bind new_fd (\<lambda>w. return (Some (r, w)))))"

text \<open>\<open>write(fd, data, n) != -1\<close> on a pipe, which takes all of the bytes.\<close>

definition sys_write :: "int \<Rightarrow> char_ptr \<Rightarrow> nat \<Rightarrow> bool prog" where
  "sys_write fd data n =
     bind (lift (if n = 0 then Ret [] else obind (deref data) (\<lambda>s.
        if length s < n then Undef Out_Of_Bounds else Ret (take n s)))) (\<lambda>bs.
     bind sys_call (\<lambda>ok.
     if ok then bind (emit (Written fd bs)) (\<lambda>_. return True) else return False))"

text \<open>The child: with its descriptors in place it limits its own time, when there is a limit, and
  becomes the interpreter; otherwise it exits without output on the pipe.\<close>

definition script_child :: "bool \<Rightarrow> string \<Rightarrow> string \<Rightarrow> string \<Rightarrow> int \<Rightarrow> env \<Rightarrow> rd list" where
  "script_child dups interpreter path input timeout E =
     (if \<not> dups then [Eof]
      else script_run E interpreter path input (if timeout > 0 then timeout else 0))"

definition SIGKILL :: int where "SIGKILL = 9"
definition SIGALRM :: int where "SIGALRM = 14"

definition script_collect :: "nat \<Rightarrow> DynamicBuffer \<Rightarrow> int \<Rightarrow> DynamicBuffer option prog" where
  "script_collect passes db stdout_read =
     bind (dynamic_buffer_append_fd passes (Some db) stdout_read) (\<lambda>(_, db).
     bind (sys_close stdout_read) (\<lambda>_.
     bind (emit Killed) (\<lambda>_.
     bind sys_wait (\<lambda>child_exit_status.
     bind (if child_exit_status = SIGKILL then print_warning ''killed script after it sent EOF''
           else if child_exit_status = SIGALRM
           then print_warning ''killed script because it took more than %d seconds''
           else return ()) (\<lambda>_.
     return db)))))"

definition script_father ::
    "nat \<Rightarrow> int \<times> int \<Rightarrow> int \<times> int \<Rightarrow> bool \<Rightarrow> string \<Rightarrow> string \<Rightarrow> sized_string \<Rightarrow> int \<Rightarrow> DynamicBuffer option prog" where
  "script_father passes stdin_pipe stdout_pipe dups interpreter path stdin_args timeout =
     bind (dynamic_buffer_ini DEFAULT_FD_BUFFER) (\<lambda>db. case db of
       None \<Rightarrow>
         bind (print_error ''failed to allocate memory for dynamic buffer'') (\<lambda>_.
         bind (emit Killed) (\<lambda>_.
         bind sys_wait (\<lambda>_.
         return None)))
     | Some db \<Rightarrow>
         bind (sys_close (fst stdin_pipe)) (\<lambda>_.
         bind (sys_close (snd stdout_pipe)) (\<lambda>_.
         bind (sys_write (snd stdin_pipe) (str_data stdin_args) (unat (str_size stdin_args))) (\<lambda>written.
         if \<not> written
         then bind (print_error ''failed to write stdin_args to child: %s'') (\<lambda>_.
              bind (sys_close (fst stdout_pipe)) (\<lambda>_.
              bind (sys_close (snd stdin_pipe)) (\<lambda>_.
              bind (emit Killed) (\<lambda>_.
              bind sys_wait (\<lambda>_.
              bind (dynamic_buffer_destroy (Some db)) (\<lambda>_.
              return None))))))
         else bind (sys_close (snd stdin_pipe)) (\<lambda>_.
              bind (asks (script_child dups interpreter path (bytes stdin_args) timeout)) (\<lambda>output.
              bind (modify (set_pending (fst stdout_pipe) output)) (\<lambda>_.
              script_collect passes db (fst stdout_pipe))))))))"

definition execute_script ::
    "nat \<Rightarrow> string \<Rightarrow> string \<Rightarrow> sized_string \<Rightarrow> int \<Rightarrow> DynamicBuffer option prog" where
  "execute_script passes interpreter path stdin_args timeout =
     bind sys_pipe (\<lambda>p. case p of
       None \<Rightarrow> bind (print_error ''failed to create pipe: %s'') (\<lambda>_. return None)
     | Some stdin_pipe \<Rightarrow>
     bind sys_pipe (\<lambda>p. case p of
       None \<Rightarrow> bind (print_error ''failed to create pipe: %s'') (\<lambda>_. return None)
     | Some stdout_pipe \<Rightarrow>
     bind sys_call (\<lambda>forked.
       if \<not> forked
       then bind (print_error ''failed to create child to execute script'') (\<lambda>_. return None)
       else bind (emit (Forked interpreter path (if timeout > 0 then timeout else 0))) (\<lambda>_.
            bind sys_call (\<lambda>dups.
            script_father passes stdin_pipe stdout_pipe dups interpreter path stdin_args timeout)))))"

definition execute_python_script :: "nat \<Rightarrow> string \<Rightarrow> sized_string \<Rightarrow> int \<Rightarrow> DynamicBuffer option prog" where
  "execute_python_script passes path stdin_args timeout = execute_script passes ''python3'' path stdin_args timeout"

definition execute_php_script :: "nat \<Rightarrow> string \<Rightarrow> sized_string \<Rightarrow> int \<Rightarrow> DynamicBuffer option prog" where
  "execute_php_script passes path stdin_args timeout = execute_script passes ''php'' path stdin_args timeout"

section \<open>What a run keeps\<close>

text \<open>The output of a script arrives in pieces of at least one byte and ends; the limits are far
  beyond what memory holds.\<close>

definition scripts_end :: "env \<Rightarrow> nat \<Rightarrow> bool" where
  "scripts_end E n \<longleftrightarrow> (\<forall>i p input t. \<exists>cs. script_run E i p input t = pipe_bytes cs \<and> [] \<notin> set cs \<and>
     length (concat cs) < n)"

text \<open>A run of a script sends nothing and touches no descriptor below \<open>b\<close>.\<close>

definition keeps_below :: "int \<Rightarrow> world \<Rightarrow> world \<Rightarrow> bool" where
  "keeps_below b w w' \<longleftrightarrow> n_send w' = n_send w \<and> (\<forall>fd. sent_on fd (trace w') = sent_on fd (trace w)) \<and>
     next_fd w \<le> next_fd w' \<and> (\<forall>fd < b. pending w' fd = pending w fd) \<and>
     (\<forall>fd < b. fd \<in> open_fds w' \<longleftrightarrow> fd \<in> open_fds w) \<and> log_limit w' = log_limit w"

lemma keeps_below_trans:
  "keeps_below b w w' \<Longrightarrow> keeps_below b w' w'' \<Longrightarrow> keeps_below b w w''"
  by (simp add: keeps_below_def)

definition calls_ok :: "env \<Rightarrow> bool" where
  "calls_ok E \<longleftrightarrow> (\<forall>k. call_ok E k)"

lemma stream_pipe_bytes [simp]: "stream (pipe_bytes cs) = concat cs"
  by (induction cs) (simp_all add: pipe_bytes_def)

lemma script_child_ends:
  assumes "scripts_end E n" and "0 < n"
  obtains cs where "script_child dups i p input t E = pipe_bytes cs" "[] \<notin> set cs" "length (concat cs) < n"
proof (cases dups)
  case True
  from assms(1) obtain cs where "script_run E i p input (if t > 0 then t else 0) = pipe_bytes cs"
    "[] \<notin> set cs" "length (concat cs) < n"
    unfolding scripts_end_def by blast
  with True that show thesis by (simp add: script_child_def)
next
  case False
  with assms(2) show thesis by (intro that [of "[]"]) (simp_all add: script_child_def pipe_bytes_def)
qed

lemma db_holds_world:
  "db_holds d s F R w \<Longrightarrow> live w' = live w \<Longrightarrow> n_malloc w' = n_malloc w \<Longrightarrow> db_holds d s F (rest w') w'"
  by (simp add: db_holds_def heap_ok_def)

lemma db_holds_sel:
  assumes "db_holds d s F R w"
  shows "next_fd w = next_fd R" "open_fds w = open_fds R" "pending w = pending R" "n_send w = n_send R"
    "n_calls w = n_calls R" "trace w = trace R" "log_limit w = log_limit R"
  using db_holds_rest [OF assms] by auto

text \<open>What the collection of the output leaves behind, for a state \<open>w\<close> before and \<open>w'\<close> after.\<close>

definition collected :: "int \<Rightarrow> world \<Rightarrow> world \<Rightarrow> bool" where
  "collected fd w w' \<longleftrightarrow> n_send w' = n_send w \<and> trace w' = trace w @ [Closed fd, Killed, Waited] \<and>
     next_fd w' = next_fd w \<and> open_fds w' = open_fds w - {fd} \<and> log_limit w' = log_limit w \<and>
     (\<forall>fd'. fd' \<noteq> fd \<longrightarrow> pending w' fd' = pending w fd')"

lemma wp_script_collect:
  assumes alloc: "alloc_ok E" and h: "db_holds d [] F R w" and cap: "0 < unat (db_capacity d)"
    and out: "pending w fd = pipe_bytes cs" "[] \<notin> set cs" "length (concat cs) < passes"
      "length (concat cs) + 256 < 2 ^ 64"
    and Q: "\<And>d' w'. db_holds d' (concat cs) F (rest w') w' \<Longrightarrow> collected fd w w' \<Longrightarrow> Q (Some d') w'"
  shows "wp (script_collect passes d fd) Q E w"
proof -
  have "wp (dynamic_buffer_append_fd_loop passes d fd 0) (\<lambda>(k, d') w'.
      db_holds d' (concat cs) F (set_pending fd (pipe_bytes []) R) w') E w"
    using out cap by (intro wp_append_fd_loop [OF alloc h, where cs = cs]) auto
  then obtain k d' w' where run: "dynamic_buffer_append_fd_loop passes d fd 0 E w = Ret ((k, d'), w')"
    and h': "db_holds d' (concat cs) F (set_pending fd (pipe_bytes []) R) w'"
    by (elim wpE) auto
  have fin: "Q (Some d') w''" if "live w'' = live w'" "n_malloc w'' = n_malloc w'"
    "n_send w'' = n_send w'" "trace w'' = trace w' @ [Closed fd, Killed, Waited]" "next_fd w'' = next_fd w'"
    "open_fds w'' = open_fds w' - {fd}" "log_limit w'' = log_limit w'" "pending w'' = pending w'" for w''
    using that db_holds_sel [OF h] db_holds_sel [OF h']
    by (intro Q db_holds_world [OF h']) (auto simp: collected_def)
  then show ?thesis
    by (simp add: script_collect_def dynamic_buffer_append_fd_def wp_simps wp_Ret [of "dynamic_buffer_append_fd_loop passes d fd 0" E w, OF run])
qed

lemma collected_keeps: "collected fd w w' \<Longrightarrow> b \<le> fd \<Longrightarrow> keeps_below b w w'"
  by (auto simp: collected_def keeps_below_def)

lemma wp_sys_write:
  assumes "readable a"
  shows "wp (sys_write fd (str_data a) (unat (str_size a))) Q E w =
    (if call_ok E (n_calls w)
     then Q True (w\<lparr>n_calls := Suc (n_calls w), trace := trace w @ [Written fd (bytes a)]\<rparr>)
     else Q False (w\<lparr>n_calls := Suc (n_calls w)\<rparr>))"
  using assms
  by (auto simp: sys_write_def wp_simps readable_def bytes_def split: option.splits)

text \<open>The result of a run: no buffer and no block left behind, or the script's whole output.\<close>

definition script_result ::
    "env \<Rightarrow> bool \<Rightarrow> string \<Rightarrow> string \<Rightarrow> sized_string \<Rightarrow> int \<Rightarrow> nat set \<Rightarrow> DynamicBuffer option \<Rightarrow> world \<Rightarrow> bool" where
  "script_result E dups interpreter path args timeout L r w' \<longleftrightarrow> (case r of
     None \<Rightarrow> \<not> calls_ok E \<and> live w' = L \<and> heap_ok w'
   | Some d \<Rightarrow> db_holds d (stream (script_child dups interpreter path (bytes args) timeout E)) L (rest w') w')"

text \<open>What a run that returns a buffer did with its four descriptors.\<close>

definition script_done :: "int \<Rightarrow> int \<Rightarrow> int \<Rightarrow> int \<Rightarrow> string \<Rightarrow> world \<Rightarrow> world \<Rightarrow> bool" where
  "script_done r1 w1 r2 w2 input w w' \<longleftrightarrow>
     trace w' = trace w @ [Closed r1, Closed w2, Written w1 input, Closed w1, Closed r2, Killed, Waited] \<and>
     open_fds w' = open_fds w - {r1, w1, r2, w2}"

lemma wp_script_father:
  assumes alloc: "alloc_ok E" and heap: "heap_ok w" and scripts: "scripts_end E n" "0 < n" "n \<le> passes" "n + 256 < 2 ^ 64"
    and args: "readable args" and fds: "b \<le> r1" "b \<le> w1" "b \<le> r2" "b \<le> w2"
    and Q: "\<And>r w'. keeps_below b w w' \<Longrightarrow> script_result E dups interp path args t (live w) r w' \<Longrightarrow>
      (r \<noteq> None \<longrightarrow> script_done r1 w1 r2 w2 (bytes args) w w') \<Longrightarrow> Q r w'"
  shows "wp (script_father passes (r1, w1) (r2, w2) dups interp path args t) Q E w"
  unfolding script_father_def wp_bind
proof (rule wp_dynamic_buffer_ini [OF _ _ heap refl])
  show "malloc_ok E (n_malloc w)" "malloc_ok E (Suc (n_malloc w))" using alloc by simp_all
  show "(if DEFAULT_FD_BUFFER < 1 then DEFAULT_INITIAL_CAPACITY else DEFAULT_FD_BUFFER) < 2 ^ 64"
    by (simp add: DEFAULT_FD_BUFFER_def)
  fix d w1'
  assume h: "db_holds d [] (live w) (rest w) w1'"
    and c: "db_capacity d = of_int (if DEFAULT_FD_BUFFER < 1 then DEFAULT_INITIAL_CAPACITY else DEFAULT_FD_BUFFER)"
  have cap: "0 < unat (db_capacity d)" by (simp add: c DEFAULT_FD_BUFFER_def)
  note sel = db_holds_sel [OF h, simplified]
  obtain cs where cs: "script_child dups interp path (bytes args) t E = pipe_bytes cs" "[] \<notin> set cs"
    "length (concat cs) < n"
    using scripts(1,2) by (rule script_child_ends)
  have collect: "wp (script_collect passes d r2) Q E w2'"
    if w2: "live w2' = live w1'" "n_malloc w2' = n_malloc w1'" "pending w2' = (pending w)(r2 := pipe_bytes cs)"
      "n_send w2' = n_send w" "trace w2' = trace w @ [Closed r1, Closed w2, Written w1 (bytes args), Closed w1]"
      "next_fd w2' = next_fd w"
      "open_fds w2' = open_fds w - {r1} - {w2} - {w1}" "log_limit w2' = log_limit w" for w2'
  proof (rule wp_script_collect [OF alloc db_holds_world [OF h w2(1,2)] cap _ cs(2)])
    show "pending w2' r2 = pipe_bytes cs" using w2(3) by simp
    show "length (concat cs) < passes" "length (concat cs) + 256 < 2 ^ 64" using cs(3) scripts by simp_all
    fix d' w'
    assume d': "db_holds d' (concat cs) (live w) (rest w') w'" and k: "collected r2 w2' w'"
    have "keeps_below b w w2'" using w2 fds by (auto simp: keeps_below_def)
    with collected_keeps [OF k fds(3)] have "keeps_below b w w'" by (blast intro: keeps_below_trans)
    moreover have "script_done r1 w1 r2 w2 (bytes args) w w'"
      using k w2 by (auto simp: script_done_def collected_def)
    ultimately show "Q (Some d') w'" using d' cs(1) by (intro Q) (simp_all add: script_result_def)
  qed
  have fail: "wp (dynamic_buffer_destroy (Some d)) (\<lambda>_. Q None) E w2'"
    if w2: "live w2' = live w1'" "n_malloc w2' = n_malloc w1'" "keeps_below b w w2'" "\<not> calls_ok E" for w2'
  proof (rule wp_dynamic_buffer_destroy [OF db_holds_world [OF h w2(1,2)]])
    fix w'
    assume w': "live w' = live w" "heap_ok w'" "rest w' = rest w2'"
    have "keeps_below b w w'" using w2(3) rest_eqD [OF w'(3)] by (simp add: keeps_below_def)
    then show "Q None w'" using w' w2(4) by (intro Q) (simp_all add: script_result_def)
  qed
  show "wp (case Some d of None \<Rightarrow> bind (print_error ''failed to allocate memory for dynamic buffer'')
       (\<lambda>_. bind (emit Killed) (\<lambda>_. bind sys_wait (\<lambda>_. return None)))
     | Some db \<Rightarrow>
         bind (sys_close (fst (r1, w1))) (\<lambda>_.
         bind (sys_close (snd (r2, w2))) (\<lambda>_.
         bind (sys_write (snd (r1, w1)) (str_data args) (unat (str_size args))) (\<lambda>written.
         if \<not> written
         then bind (print_error ''failed to write stdin_args to child: %s'') (\<lambda>_.
              bind (sys_close (fst (r2, w2))) (\<lambda>_.
              bind (sys_close (snd (r1, w1))) (\<lambda>_.
              bind (emit Killed) (\<lambda>_.
              bind sys_wait (\<lambda>_.
              bind (dynamic_buffer_destroy (Some db)) (\<lambda>_.
              return None))))))
         else bind (sys_close (snd (r1, w1))) (\<lambda>_.
              bind (asks (script_child dups interp path (bytes args) t)) (\<lambda>output.
              bind (modify (set_pending (fst (r2, w2)) output)) (\<lambda>_.
              script_collect passes db (fst (r2, w2))))))))) Q E w1'"
    using args fds sel cs(1)
    by (auto simp: wp_simps wp_sys_write keeps_below_def calls_ok_def fun_eq_iff intro!: collect fail)
qed

lemma wp_sys_pipe [wp_simps]:
  "wp sys_pipe Q E w =
     (if call_ok E (n_calls w)
      then Q (Some (next_fd w, next_fd w + 1))
        (w\<lparr>n_calls := Suc (n_calls w), next_fd := next_fd w + 1 + 1,
           open_fds := insert (next_fd w + 1) (insert (next_fd w) (open_fds w))\<rparr>)
      else Q None (w\<lparr>n_calls := Suc (n_calls w)\<rparr>))"
  by (simp add: sys_pipe_def wp_simps)

lemma keeps_below_upd [simp]:
  "keeps_below b w (w'\<lparr>n_calls := c\<rparr>) = keeps_below b w w'"
  "keeps_below b w (w'\<lparr>log_out := l\<rparr>) = keeps_below b w w'"
  by (simp_all add: keeps_below_def)

lemma wp_execute_script:
  assumes alloc: "alloc_ok E" and heap: "heap_ok w" and scripts: "scripts_end E n" "0 < n" "n \<le> passes" "n + 256 < 2 ^ 64"
    and args: "readable args"
    and Q: "\<And>r w' dups. keeps_below (next_fd w) w w' \<Longrightarrow> (calls_ok E \<longrightarrow> dups) \<Longrightarrow>
      script_result E dups interp path args t (live w) r w' \<Longrightarrow>
      (r \<noteq> None \<longrightarrow> (\<exists>w1. trace w1 = trace w @ [Forked interp path (max 0 t)] \<and>
         open_fds w1 = open_fds w \<union> {next_fd w, next_fd w + 1, next_fd w + 2, next_fd w + 3} \<and>
         script_done (next_fd w) (next_fd w + 1) (next_fd w + 2) (next_fd w + 3) (bytes args) w1 w')) \<Longrightarrow> Q r w'"
  shows "wp (execute_script passes interp path args t) Q E w"
proof -
  have none: "Q None w'" if "keeps_below (next_fd w) w w'" "\<not> calls_ok E" "live w' = live w" "n_malloc w' = n_malloc w" for w'
    using that heap by (intro Q [of w' False]) (auto simp: script_result_def heap_ok_def)
  have father: "wp (script_father passes (next_fd w, 1 + next_fd w) (next_fd w + 2, next_fd w + 3) dups interp path args t) Q E w'"
    if "keeps_below (next_fd w) w w'" "live w' = live w" "n_malloc w' = n_malloc w" "calls_ok E \<longrightarrow> dups"
      "trace w' = trace w @ [Forked interp path (max 0 t)]"
      "open_fds w' = open_fds w \<union> {next_fd w, next_fd w + 1, next_fd w + 2, next_fd w + 3}" for dups w'
  proof (rule wp_script_father [OF alloc _ scripts args, where b = "next_fd w"])
    show "heap_ok w'" using that heap by (simp add: heap_ok_def)
    fix r w''
    assume "keeps_below (next_fd w) w' w''" "script_result E dups interp path args t (live w') r w''"
      "r \<noteq> None \<longrightarrow> script_done (next_fd w) (1 + next_fd w) (next_fd w + 2) (next_fd w + 3) (bytes args) w' w''"
    then show "Q r w''"
      using that by (intro Q [of w'' dups]) (auto simp: add.commute intro: keeps_below_trans intro!: exI [of _ w'])
  qed simp_all
  show ?thesis
    by (auto simp: execute_script_def wp_simps add.commute add.left_commute calls_ok_def intro!: none father)
      (auto simp: keeps_below_def)
qed

section \<open>Properties\<close>

lemma max_timeout: "(if t > 0 then t else 0) = max 0 (t :: int)"
  by simp

lemma demo_scripts_end: "scripts_end demo_env 8"
  unfolding scripts_end_def by (auto simp: pipe_bytes_def intro!: exI [of _ "[''ok'']"])

lemma demo_calls_ok: "calls_ok demo_env"
  by (simp add: calls_ok_def)

text \<open>C24: a script whose calls all succeed is given exactly the bytes of its arguments, and everything it
  writes comes back in the buffer, in order; all four ends of the two pipes are closed again, and the
  child is killed and waited for. The time limit is set only when it is positive.\<close>

theorem python_script_output:
  assumes "alloc_ok E" and "calls_ok E" and "heap_ok w" and "scripts_end E n" and "0 < n" and "n \<le> passes"
    and "n + 256 < 2 ^ 64" and "readable args" and "\<forall>fd \<in> open_fds w. fd < next_fd w"
  shows "\<exists>d w'. execute_python_script passes path args t E w = Ret (Some d, w') \<and>
    db_holds d (stream (script_run E ''python3'' path (bytes args) (max 0 t))) (live w) (rest w') w' \<and>
    open_fds w' = open_fds w \<and>
    trace w' = trace w @ [Forked ''python3'' path (max 0 t), Closed (next_fd w), Closed (next_fd w + 3),
      Written (next_fd w + 1) (bytes args), Closed (next_fd w + 1), Closed (next_fd w + 2), Killed, Waited]"
proof -
  let ?out = "stream (script_run E ''python3'' path (bytes args) (max 0 t))"
  let ?fds = "{next_fd w, next_fd w + 1, next_fd w + 2, next_fd w + 3}"
  let ?P = "\<lambda>d w'. db_holds d ?out (live w) (rest w') w' \<and> open_fds w' = open_fds w \<and>
    trace w' = trace w @ [Forked ''python3'' path (max 0 t), Closed (next_fd w), Closed (next_fd w + 3),
      Written (next_fd w + 1) (bytes args), Closed (next_fd w + 1), Closed (next_fd w + 2), Killed, Waited]"
  have fresh: "open_fds w \<union> ?fds - ?fds = open_fds w"
    using assms(9) by force
  have "wp (execute_script passes ''python3'' path args t) (\<lambda>r w'. \<exists>d. r = Some d \<and> ?P d w') E w"
  proof (rule wp_execute_script [OF assms(1,3-8)])
    fix r w' dups
    assume r: "script_result E dups ''python3'' path args t (live w) r w'" "calls_ok E \<longrightarrow> dups"
      and don: "r \<noteq> None \<longrightarrow> (\<exists>w1. trace w1 = trace w @ [Forked ''python3'' path (max 0 t)] \<and>
         open_fds w1 = open_fds w \<union> ?fds \<and>
         script_done (next_fd w) (next_fd w + 1) (next_fd w + 2) (next_fd w + 3) (bytes args) w1 w')"
    from r assms(2) obtain d where d: "r = Some d" "db_holds d ?out (live w) (rest w') w'"
      by (auto simp: script_result_def script_child_def max_timeout split: option.splits)
    with don obtain w1 where w1: "trace w1 = trace w @ [Forked ''python3'' path (max 0 t)]"
      "open_fds w1 = open_fds w \<union> ?fds"
      "script_done (next_fd w) (next_fd w + 1) (next_fd w + 2) (next_fd w + 3) (bytes args) w1 w'"
      by blast
    have "open_fds w' = open_fds w"
      using w1(3) unfolding script_done_def w1(2) fresh by blast
    with d w1(1,3) show "\<exists>d. r = Some d \<and> ?P d w'" by (simp add: script_done_def)
  qed
  then show ?thesis unfolding execute_python_script_def by (elim wpE) blast
qed

theorem python_script_output_witness:
  "\<exists>d w'. execute_python_script 8 ''/s.py'' \<lparr>str_data = Some ''abc'', str_size = 2\<rparr> 5 demo_env demo_world = Ret (Some d, w') \<and>
     db_holds d ''ok'' {} (rest w') w' \<and> open_fds w' = {7} \<and> Written 9 ''ab'' \<in> set (trace w')"
proof -
  let ?a = "\<lparr>str_data = Some ''abc'', str_size = 2\<rparr>"
  have a: "readable ?a" "bytes ?a = ''ab''" by (simp_all add: readable_def bytes_def)
  have fds: "\<forall>fd \<in> open_fds demo_world. fd < next_fd demo_world" by simp
  obtain d w' where "execute_python_script 8 ''/s.py'' ?a 5 demo_env demo_world = Ret (Some d, w')"
    and "db_holds d ''ok'' {} (rest w') w'" and "open_fds w' = {7}"
    and "trace w' = [Forked ''python3'' ''/s.py'' 5, Closed 8, Closed 11, Written 9 ''ab'', Closed 9, Closed 10, Killed, Waited]"
    using python_script_output [where passes = 8 and n = 8 and path = "''/s.py''" and t = 5,
      OF demo_alloc_ok demo_calls_ok demo_heap_ok demo_scripts_end _ _ _ a(1) fds]
    unfolding a(2) by auto
  then show ?thesis by (intro exI [of _ d] exI [of _ w']) simp
qed

text \<open>C38: when \<open>fork\<close> fails the four ends of the pipes stay open, and when the second \<open>pipe\<close> fails the two
  ends of the first do: no error path of \<open>_execute_script\<close> before the child closes them.\<close>

theorem script_failure_leaks_descriptors:
  assumes "call_ok E (n_calls w)" and "\<forall>fd \<in> open_fds w. fd < next_fd w"
  shows "(\<not> call_ok E (Suc (n_calls w)) \<longrightarrow>
      (\<exists>w'. execute_script passes interpreter path args t E w = Ret (None, w') \<and>
        card (open_fds w' - open_fds w) = 2)) \<and>
    (call_ok E (Suc (n_calls w)) \<and> \<not> call_ok E (Suc (Suc (n_calls w))) \<longrightarrow>
      (\<exists>w'. execute_script passes interpreter path args t E w = Ret (None, w') \<and>
        card (open_fds w' - open_fds w) = 4))"
proof -
  have new: "next_fd w \<notin> open_fds w" "next_fd w + 1 \<notin> open_fds w" "next_fd w + 2 \<notin> open_fds w" "next_fd w + 3 \<notin> open_fds w"
    using assms(2) by force+
  have "wp (execute_script passes interpreter path args t) (\<lambda>r w'. r = None \<and>
      open_fds w' - open_fds w = {next_fd w, next_fd w + 1}) E w" if "\<not> call_ok E (Suc (n_calls w))"
    using that assms(1) new by (auto simp: execute_script_def wp_simps)
  moreover have "wp (execute_script passes interpreter path args t) (\<lambda>r w'. r = None \<and>
      open_fds w' - open_fds w = {next_fd w, next_fd w + 1, next_fd w + 2, next_fd w + 3}) E w"
    if "call_ok E (Suc (n_calls w))" "\<not> call_ok E (Suc (Suc (n_calls w)))"
    using that assms(1) new by (auto simp: execute_script_def wp_simps)
  ultimately show ?thesis by (auto elim!: wpE)
qed

theorem script_failure_leaks_descriptors_witness:
  "\<exists>w'. execute_script 8 ''php'' ''/s.php'' \<lparr>str_data = None, str_size = 0\<rparr> 0
      (demo_env\<lparr>call_ok := (\<lambda>k. k < 2)\<rparr>) demo_world = Ret (None, w') \<and> card (open_fds w' - {7}) = 4"
  using script_failure_leaks_descriptors [of "demo_env\<lparr>call_ok := (\<lambda>k. k < 2)\<rparr>" demo_world] by simp

end
