(* ===== verification/Utils.thy ===== *)
theory Utils
  imports Main
begin

text \<open>The result codes of include/utils.h.\<close>

definition OK :: int where [simp]: "OK = 0"
definition ERROR :: int where [simp]: "ERROR = -1"
definition CLOSE_CONNECTION :: int where [simp]: "CLOSE_CONNECTION = -2"
definition BAD_REQUEST :: int where [simp]: "BAD_REQUEST = -3"
definition REQUEST_TOO_LONG :: int where [simp]: "REQUEST_TOO_LONG = -4"
definition NOT_FOUND :: int where [simp]: "NOT_FOUND = -5"

end
