(* ===== verification/Request.thy ===== *)
theory Request
  imports Logging Cstring Utils Demo
begin

text \<open>
  Reading and parsing a request, src/request.c and include/request.h. The request buffer is
  an array of \<open>MAX_BUFFER\<close> bytes, filled by \<open>read\<close> until picohttpparser (a parameter of the
  environment) accepts or rejects what has arrived. A pointer into the buffer is the rest of
  the buffer from its offset on.
\<close>

section \<open>The code\<close>

definition MAX_BUFFER :: nat where "MAX_BUFFER = 8192"
definition MAX_HEADERS :: nat where "MAX_HEADERS = 32"

record request =
  rq_buffer :: string
  len_buffer :: nat
  old_len_buffer :: nat
  rq_method :: sized_string
  path :: sized_string
  body :: sized_string
  url_args :: sized_string
  minor_version :: int
  headers :: "phr_header list"
  num_headers :: nat

text \<open>The loops of this file count with an \<open>unsigned int\<close>, and index the buffer of 8192 bytes or the array of 32 headers:
  they end, or leave the array, before the counter could wrap.

  \<open>_is_request_valid\<close>: the bound \<open>path.size - 1\<close> is a \<open>size_t\<close> and wraps for an empty path.\<close>

function is_request_valid_loop :: "sized_string \<Rightarrow> nat \<Rightarrow> bool outcome" where
  "is_request_valid_loop p i =
     (if i < unat (str_size p - 1)
      then obind (char_at (str_data p) i) (\<lambda>c.
             if c = CHR ''.''
             then obind (char_at (str_data p) (i + 1)) (\<lambda>c'.
                    if c' = CHR ''.'' then Ret False else is_request_valid_loop p (Suc i))
             else is_request_valid_loop p (Suc i))
      else Ret True)"
  by pat_completeness auto
termination
  by (relation "measure (\<lambda>(p, i). unat (str_size p - 1) - i)") auto

definition is_request_valid :: "request \<Rightarrow> bool outcome" where
  "is_request_valid request = is_request_valid_loop (path request) 0"

text \<open>\<open>_parse_url_args\<close>: the arguments start after the first question mark and the path ends
  before it.\<close>

function parse_url_args_loop :: "request \<Rightarrow> nat \<Rightarrow> request outcome" where
  "parse_url_args_loop request i =
     (if i < unat (str_size (path request))
      then obind (char_at (str_data (path request)) i) (\<lambda>c.
             if c = CHR ''?''
             then Ret (request\<lparr>
                    url_args := \<lparr>str_data = map_option (drop (i + 1)) (str_data (path request)),
                                 str_size = str_size (path request) - of_nat i - 1\<rparr>,
                    path := (path request)\<lparr>str_size := of_nat i\<rparr>\<rparr>)
             else parse_url_args_loop request (Suc i))
      else Ret (request\<lparr>url_args := \<lparr>str_data = None, str_size = 0\<rparr>\<rparr>))"
  by pat_completeness auto
termination
  by (relation "measure (\<lambda>(r, i). unat (str_size (path r)) - i)") auto

definition parse_url_args :: "request \<Rightarrow> request outcome" where
  "parse_url_args request = parse_url_args_loop request 0"

text \<open>\<open>_parse_body\<close>: the body starts four bytes after the end of the last header's value; its
  size is a difference of \<open>size_t\<close> values.\<close>

definition parse_body :: "request \<Rightarrow> request outcome" where
  "parse_body request =
     (let last = unat (of_nat (num_headers request) - 1 :: size_t) in
      if length (headers request) \<le> last then Undef Out_Of_Bounds
      else let last_header = headers request ! last;
               off = hvalue last_header + hvalue_len last_header + 4
           in Ret (request\<lparr>body := \<lparr>str_data = Some (drop off (rq_buffer request)),
                                  str_size = of_nat (len_buffer request) - of_nat off\<rparr>\<rparr>))"

text \<open>\<open>read\<close>, again while a signal interrupted it; the first argument is the number of tries.\<close>

fun read_retry :: "nat \<Rightarrow> int \<Rightarrow> nat \<Rightarrow> read_result prog" where
  "read_retry 0 client_fd n = unfinished"
| "read_retry (Suc tries) client_fd n =
     bind (sys_read client_fd n) (\<lambda>r.
       if r = Err EINTR then read_retry tries client_fd n else return r)"

text \<open>What the loop of \<open>request_process\<close> ends with: a code to return at once, or a parsed request.
  \<open>request_pass\<close> is the body of the loop after the read and \<open>request_verdict\<close> its part after the
  call of the parser; \<open>None\<close> stands for another pass. The room
  for headers given to the parser is \<open>num_headers\<close>, which the parser overwrites.\<close>

datatype read_end = Early int | Parsed phr_result

definition request_verdict :: "phr_result \<Rightarrow> request \<Rightarrow> (read_end option \<times> request) prog" where
  "request_verdict p request =
     (if phr_ret p > 0 then return (Some (Parsed p), request)
      else if phr_ret p = -1
      then bind (print_error ''error parsing request'') (\<lambda>_. return (Some (Early BAD_REQUEST), request))
      else if phr_ret p = -2 \<and> len_buffer request = MAX_BUFFER
      then bind (print_error ''request is too long'') (\<lambda>_. return (Some (Early REQUEST_TOO_LONG), request))
      else return (None, request))"

definition request_pass :: "request \<Rightarrow> read_result \<Rightarrow> (read_end option \<times> request) prog" where
  "request_pass request r = (case r of
       Err e \<Rightarrow>
         if e = EAGAIN \<or> e = EWOULDBLOCK
         then bind (print_info ''timeout %d (%d)'') (\<lambda>_. return (Some (Early CLOSE_CONNECTION), request))
         else bind (print_error ''failed to read from client: %s'') (\<lambda>_. return (Some (Early ERROR), request))
     | Got bs \<Rightarrow>
         if bs = []
         then bind (print_info ''client has disconnected'') (\<lambda>_. return (Some (Early CLOSE_CONNECTION), request))
         else
           bind (lift (mem_write (rq_buffer request) (len_buffer request) bs)) (\<lambda>buffer.
           let old = len_buffer request; len = len_buffer request + length bs in
           bind (asks (\<lambda>E. phr_parse_request E (take len buffer) old (num_headers request))) (\<lambda>p.
           let request = request\<lparr>rq_buffer := buffer, old_len_buffer := old, len_buffer := len,
                                 minor_version := phr_minor_version p, headers := phr_headers p,
                                 num_headers := phr_num_headers p\<rparr> in
           request_verdict p request)))"

fun request_read_loop :: "nat \<Rightarrow> nat \<Rightarrow> request \<Rightarrow> int \<Rightarrow> (read_end \<times> request) prog" where
  "request_read_loop 0 tries request client_fd = unfinished"
| "request_read_loop (Suc passes) tries request client_fd =
     bind (read_retry tries client_fd (MAX_BUFFER - len_buffer request)) (\<lambda>r.
     bind (request_pass request r) (\<lambda>(e, request). case e of
       Some e \<Rightarrow> return (e, request)
     | None \<Rightarrow> request_read_loop passes tries request client_fd))"

text \<open>What follows the loop: the method and the path are set, and the path is checked before the
  arguments and the body are looked for.\<close>

definition request_accept :: "phr_result \<Rightarrow> request \<Rightarrow> (int \<times> request) outcome" where
  "request_accept p request =
     (let request = request\<lparr>
            rq_method := \<lparr>str_data = Some (drop (phr_method p) (rq_buffer request)),
                          str_size = of_nat (phr_method_len p)\<rparr>,
            path := \<lparr>str_data = Some (drop (phr_path p) (rq_buffer request)),
                     str_size = of_nat (phr_path_len p)\<rparr>\<rparr> in
      obind (is_request_valid request) (\<lambda>valid.
        if valid
        then obind (parse_url_args request) (\<lambda>request.
             obind (parse_body request) (\<lambda>request.
             Ret (OK, request)))
        else Ret (BAD_REQUEST, request)))"

definition request_process :: "nat \<Rightarrow> nat \<Rightarrow> request \<Rightarrow> int \<Rightarrow> (int \<times> request) prog" where
  "request_process passes tries request client_fd =
     bind (request_read_loop passes tries (request\<lparr>len_buffer := 0, num_headers := MAX_HEADERS\<rparr>) client_fd)
       (\<lambda>(r, request). case r of
          Early code \<Rightarrow> return (code, request)
        | Parsed p \<Rightarrow> lift (request_accept p request))"

text \<open>\<open>request_get_header\<close>: the first header with the name, compared byte by byte.\<close>

function get_header_loop :: "request \<Rightarrow> char_ptr \<Rightarrow> nat \<Rightarrow> sized_string outcome" where
  "get_header_loop request header_name i =
     (if i < num_headers request
      then if length (headers request) \<le> i then Undef Out_Of_Bounds
        else let h = headers request ! i;
               current_header_name = \<lparr>str_data = Some (drop (hname h) (rq_buffer request)),
                                      str_size = of_nat (hname_len h)\<rparr> in
           obind (string_is_equal_to current_header_name header_name) (\<lambda>eq.
             if eq then Ret \<lparr>str_data = Some (drop (hvalue h) (rq_buffer request)),
                             str_size = of_nat (hvalue_len h)\<rparr>
             else get_header_loop request header_name (Suc i))
      else Ret \<lparr>str_data = None, str_size = 0\<rparr>)"
  by pat_completeness auto
termination
  by (relation "measure (\<lambda>(r, n, i). num_headers r - i)") auto

definition request_get_header :: "request \<Rightarrow> char_ptr \<Rightarrow> sized_string outcome" where
  "request_get_header request header_name = get_header_loop request header_name 0"

declare is_request_valid_loop.simps [simp del] parse_url_args_loop.simps [simp del]
  get_header_loop.simps [simp del]

section \<open>Validity of the path\<close>

definition has_dotdot :: "string \<Rightarrow> bool" where
  "has_dotdot s \<longleftrightarrow> (\<exists>i. Suc i < length s \<and> s ! i = CHR ''.'' \<and> s ! Suc i = CHR ''.'')"

lemma has_dotdot_iff: "has_dotdot s \<longleftrightarrow> (\<exists>u v. s = u @ ''..'' @ v)"
proof
  assume "has_dotdot s"
  then obtain i where i: "Suc i < length s" "s ! i = CHR ''.''" "s ! Suc i = CHR ''.''"
    by (auto simp: has_dotdot_def)
  then have "s = take i s @ ''..'' @ drop (Suc (Suc i)) s"
    by (metis Cons_eq_appendI Cons_nth_drop_Suc Suc_lessD append_Nil append_take_drop_id)
  then show "\<exists>u v. s = u @ ''..'' @ v" by blast
next
  assume "\<exists>u v. s = u @ ''..'' @ v"
  then obtain u v where "s = u @ ''..'' @ v" by blast
  then show "has_dotdot s"
    unfolding has_dotdot_def by (intro exI [of _ "length u"]) (simp add: nth_append)
qed

lemma has_dotdot_append: "has_dotdot u \<or> has_dotdot v \<Longrightarrow> has_dotdot (u @ v)"
  unfolding has_dotdot_iff by (metis append.assoc)

lemma is_request_valid_loop_eq:
  "readable p \<Longrightarrow> str_size p \<noteq> 0 \<Longrightarrow>
   is_request_valid_loop p i =
     Ret (\<not> (\<exists>j\<ge>i. Suc j < length (bytes p) \<and> bytes p ! j = CHR ''.'' \<and> bytes p ! Suc j = CHR ''.''))"
proof (induction p i rule: is_request_valid_loop.induct)
  case (1 p i)
  have bound: "unat (str_size p - 1) = length (bytes p) - 1"
    using 1 by (simp add: length_bytes unat_minus_one)
  show ?case
  proof (cases "i < unat (str_size p - 1)")
    case True
    then have i: "Suc i < length (bytes p)" using bound by simp
    then have c: "char_at (str_data p) i = Ret (bytes p ! i)"
      "char_at (str_data p) (i + 1) = Ret (bytes p ! Suc i)"
      using 1 by (simp_all add: char_at_readable length_bytes)
    have split: "(\<exists>j\<ge>i. P j) \<longleftrightarrow> P i \<or> (\<exists>j\<ge>Suc i. P j)" for P
      by (metis Suc_le_eq le_eq_less_or_eq)
    show ?thesis
      using 1 True c i
      by (subst is_request_valid_loop.simps, subst split) auto
  next
    case False
    then show ?thesis using bound
      by (subst is_request_valid_loop.simps) auto
  qed
qed

lemma is_request_valid_eq:
  "readable (path r) \<Longrightarrow> str_size (path r) \<noteq> 0 \<Longrightarrow>
   is_request_valid r = Ret (\<not> has_dotdot (bytes (path r)))"
  by (simp add: is_request_valid_def is_request_valid_loop_eq has_dotdot_def)

section \<open>The arguments of the URL\<close>

definition before_query :: "string \<Rightarrow> string" where
  "before_query s = takeWhile (\<lambda>c. c \<noteq> CHR ''?'') s"

definition after_query :: "string \<Rightarrow> string" where
  "after_query s = tl (dropWhile (\<lambda>c. c \<noteq> CHR ''?'') s)"

lemma query_split: "CHR ''?'' \<in> set s \<Longrightarrow> s = before_query s @ ''?'' @ after_query s"
  unfolding before_query_def after_query_def
  by (induction s) auto

lemma parse_url_args_loop_eq:
  assumes "readable (path r)" and "i \<le> length (before_query (bytes (path r)))"
  shows "parse_url_args_loop r i =
    (let k = length (before_query (bytes (path r))) in
     if k < length (bytes (path r))
     then Ret (r\<lparr>url_args := \<lparr>str_data = map_option (drop (k + 1)) (str_data (path r)),
                             str_size = str_size (path r) - of_nat k - 1\<rparr>,
                path := (path r)\<lparr>str_size := of_nat k\<rparr>\<rparr>)
     else Ret (r\<lparr>url_args := \<lparr>str_data = None, str_size = 0\<rparr>\<rparr>))"
  using assms
proof (induction r i rule: parse_url_args_loop.induct)
  case (1 r i)
  let ?b = "bytes (path r)" and ?k = "length (before_query (bytes (path r)))"
  let ?found = "Ret (r\<lparr>url_args := \<lparr>str_data = map_option (drop (?k + 1)) (str_data (path r)),
                             str_size = str_size (path r) - of_nat ?k - 1\<rparr>,
                path := (path r)\<lparr>str_size := of_nat ?k\<rparr>\<rparr>)"
  let ?missing = "Ret (r\<lparr>url_args := \<lparr>str_data = None, str_size = 0\<rparr>\<rparr>)"
  have len: "length ?b = unat (str_size (path r))" using "1.prems"(1) by (rule length_bytes)
  have kle: "?k \<le> length ?b" by (simp add: before_query_def length_takeWhile_le)
  show ?case
  proof (cases "i < unat (str_size (path r))")
    case True
    then have c: "char_at (str_data (path r)) i = Ret (?b ! i)"
      using "1.prems"(1) by (simp add: char_at_readable)
    show ?thesis
    proof (cases "i < ?k")
      case less: True
      then have "?b ! i \<noteq> CHR ''?''"
        unfolding before_query_def by (rule nth_length_takeWhile_less)
      then have "parse_url_args_loop r i = parse_url_args_loop r (Suc i)"
        using True c by (subst parse_url_args_loop.simps) simp
      also have "\<dots> = (if ?k < length ?b then ?found else ?missing)"
        using "1.IH" [OF True \<open>?b ! i \<noteq> CHR ''?''\<close> "1.prems"(1)] less by (simp only: Let_def Suc_le_eq)
      finally show ?thesis by (simp only: Let_def)
    next
      case False
      then have i: "i = ?k" using "1.prems"(2) by simp
      then have "?b ! i = CHR ''?''"
        using True len nth_length_takeWhile [of "\<lambda>c. c \<noteq> CHR ''?''" ?b] by (simp add: before_query_def)
      with True c i len show ?thesis by (subst parse_url_args_loop.simps) (simp add: Let_def)
    qed
  next
    case False
    with "1.prems"(2) kle len have "\<not> ?k < length ?b" by simp
    with False show ?thesis by (subst parse_url_args_loop.simps) (simp add: Let_def)
  qed
qed

lemma parse_url_args_no_query:
  assumes "readable (path r)" and "CHR ''?'' \<notin> set (bytes (path r))"
  shows "parse_url_args r = Ret (r\<lparr>url_args := \<lparr>str_data = None, str_size = 0\<rparr>\<rparr>)"
proof -
  have "before_query (bytes (path r)) = bytes (path r)"
    using assms(2) by (auto simp: before_query_def intro: takeWhile_all)
  with assms(1) show ?thesis by (simp add: parse_url_args_def parse_url_args_loop_eq)
qed

lemma parse_url_args_loop_data:
  "parse_url_args_loop r i = Ret r' \<Longrightarrow> str_data (path r') = str_data (path r)"
proof (induction r i rule: parse_url_args_loop.induct)
  case (1 r i)
  note run = 1(2) [unfolded parse_url_args_loop.simps [of r i]]
  show ?case
  proof (cases "i < unat (str_size (path r))")
    case True
    with run obtain c where c: "char_at (str_data (path r)) i = Ret c"
      by (cases "char_at (str_data (path r)) i") simp_all
    show ?thesis
    proof (cases "c = CHR ''?''")
      case True
      with run c \<open>i < _\<close> show ?thesis by auto
    next
      case False
      with run c \<open>i < _\<close> show ?thesis by (intro 1(1)) simp_all
    qed
  next
    case False
    with run show ?thesis by auto
  qed
qed

lemma parse_url_args_query:
  assumes r: "readable (path r)" and q: "CHR ''?'' \<in> set (bytes (path r))"
  obtains r' where "parse_url_args r = Ret r'"
    and "bytes (path r') = before_query (bytes (path r))" and "readable (path r')"
    and "bytes (url_args r') = after_query (bytes (path r))" and "readable (url_args r')"
    and "r' = r\<lparr>url_args := url_args r', path := path r'\<rparr>"
proof -
  let ?b = "bytes (path r)"
  define k where "k = length (before_query ?b)"
  from q obtain d where d: "str_data (path r) = Some d"
    by (cases "str_data (path r)") (auto simp: bytes_def)
  then have b: "?b = take (unat (str_size (path r))) d" by (simp add: bytes_def)
  from r d have sz: "unat (str_size (path r)) \<le> length d" "unat (str_size (path r)) < 2 ^ 32" by (simp_all add: readable_def)
  have split: "?b = before_query ?b @ ''?'' @ after_query ?b" using q by (rule query_split)
  have len: "length ?b = unat (str_size (path r))" using r by (rule length_bytes)
  have k: "k < unat (str_size (path r))"
    using arg_cong [OF split, of length] len by (simp add: k_def)
  have k64: "k < 2 ^ 64" by (rule unat_le_lt [OF less_imp_le [OF k]])
  have kw: "of_nat k < str_size (path r)"
    using k by (simp add: word_less_nat_alt unat_of_nat_small [OF k64])
  have sub: "unat (str_size (path r) - of_nat k - 1) = unat (str_size (path r)) - k - 1"
  proof -
    have "unat (str_size (path r) - of_nat k) = unat (str_size (path r)) - k"
      using kw by (simp add: unat_sub [OF less_imp_le] unat_of_nat_small [OF k64])
    moreover have "str_size (path r) - of_nat k \<noteq> 0" using kw by auto
    ultimately show ?thesis by (simp add: unat_minus_one)
  qed
  let ?r = "r\<lparr>url_args := \<lparr>str_data = Some (drop (k + 1) d), str_size = str_size (path r) - of_nat k - 1\<rparr>,
    path := (path r)\<lparr>str_size := of_nat k\<rparr>\<rparr>"
  have take_k: "take k d = before_query ?b"
  proof -
    have "take k d = take k ?b" using k b by (simp add: min_def)
    also have "\<dots> = before_query ?b" by (subst split) (simp add: k_def)
    finally show ?thesis .
  qed
  have drop_k: "take (unat (str_size (path r)) - k - 1) (drop (k + 1) d) = after_query ?b"
  proof -
    have "take (unat (str_size (path r)) - k - 1) (drop (k + 1) d) = drop (k + 1) ?b"
      by (simp add: b drop_take)
    also have "\<dots> = after_query ?b" by (subst split) (simp add: k_def)
    finally show ?thesis .
  qed
  show thesis
  proof (rule that [of ?r])
    show "parse_url_args r = Ret ?r"
      using r k len by (simp add: parse_url_args_def parse_url_args_loop_eq d Let_def k_def [symmetric])
  qed (use k sz sub take_k drop_k in \<open>simp_all add: bytes_make bytes_resize readable_def d diff_le_mono less_imp_diff_less unat_of_nat_small [OF k64]\<close>)
qed

section \<open>Pointers into the buffer\<close>

definition slice :: "nat \<Rightarrow> nat \<Rightarrow> string \<Rightarrow> string" where
  "slice off n buf = take n (drop off buf)"

text \<open>The struct string of a slice of the buffer.\<close>

abbreviation slice_string :: "string \<Rightarrow> nat \<Rightarrow> nat \<Rightarrow> sized_string" where
  "slice_string buf off n \<equiv> \<lparr>str_data = Some (drop off buf), str_size = of_nat n\<rparr>"

lemma slice_string_readable:
  "off + n \<le> length buf \<Longrightarrow> length buf < 2 ^ 32 \<Longrightarrow> readable (slice_string buf off n)"
  by (simp add: readable_def unat_of_nat_small)

lemma bytes_slice_string:
  "n < 2 ^ 64 \<Longrightarrow> bytes (slice_string buf off n) = slice off n buf"
  by (simp add: bytes_make slice_def unat_of_nat_small del: power_numeral)

lemma slice_take: "off + n \<le> m \<Longrightarrow> slice off n (take m buf) = slice off n buf"
  by (simp add: slice_def drop_take min_def)

section \<open>Looking up a header\<close>

definition header_in :: "string \<Rightarrow> phr_header \<Rightarrow> bool" where
  "header_in buf h \<longleftrightarrow> hname h + hname_len h \<le> length buf \<and> hvalue h + hvalue_len h \<le> length buf"

text \<open>The request's headers are stored in the array and point into the buffer.\<close>

definition headers_ok :: "request \<Rightarrow> bool" where
  "headers_ok r \<longleftrightarrow> num_headers r \<le> length (headers r) \<and> length (rq_buffer r) < 2 ^ 32 \<and>
     list_all (header_in (rq_buffer r)) (headers r)"

definition header_named :: "request \<Rightarrow> string \<Rightarrow> phr_header \<Rightarrow> bool" where
  "header_named r n h \<longleftrightarrow> slice (hname h) (hname_len h) (rq_buffer r) = cstr n"

lemma get_header_loop_eq:
  assumes "headers_ok r" and "i \<le> num_headers r"
  shows "get_header_loop r (Some n) i = Ret
     (case find (header_named r n) (drop i (take (num_headers r) (headers r))) of
        None \<Rightarrow> \<lparr>str_data = None, str_size = 0\<rparr>
      | Some h \<Rightarrow> slice_string (rq_buffer r) (hvalue h) (hvalue_len h))"
  using assms
proof (induction r "Some n" i rule: get_header_loop.induct)
  case (1 r i)
  show ?case
  proof (cases "i < num_headers r")
    case False
    then show ?thesis by (subst get_header_loop.simps) simp
  next
    case True
    let ?h = "headers r ! i"
    from True "1.prems" have i: "i < length (headers r)" by (simp add: headers_ok_def)
    with "1.prems" have h: "header_in (rq_buffer r) ?h" and b: "length (rq_buffer r) < 2 ^ 32"
      by (simp_all add: headers_ok_def list_all_length del: power_numeral)
    then have rd: "readable (slice_string (rq_buffer r) (hname ?h) (hname_len ?h))"
      and nm: "bytes (slice_string (rq_buffer r) (hname ?h) (hname_len ?h)) = slice (hname ?h) (hname_len ?h) (rq_buffer r)"
      by (auto simp: header_in_def intro!: slice_string_readable bytes_slice_string)
    have d: "drop i (take (num_headers r) (headers r)) = ?h # drop (Suc i) (take (num_headers r) (headers r))"
      using True i "1.prems" by (subst Cons_nth_drop_Suc [symmetric]) auto
    show ?thesis
    proof (cases "header_named r n ?h")
      case found: True
      with True i d show ?thesis
        by (subst get_header_loop.simps) (simp add: string_is_equal_to_eq [OF rd] nm header_named_def Let_def)
    next
      case no: False
      have "get_header_loop r (Some n) i = get_header_loop r (Some n) (Suc i)"
        using True i no
        by (subst get_header_loop.simps) (simp add: string_is_equal_to_eq [OF rd] nm header_named_def Let_def)
      also have "\<dots> = Ret (case find (header_named r n) (drop (Suc i) (take (num_headers r) (headers r))) of
          None \<Rightarrow> \<lparr>str_data = None, str_size = 0\<rparr>
        | Some h \<Rightarrow> slice_string (rq_buffer r) (hvalue h) (hvalue_len h))"
        using True i "1.prems"(1) by (intro "1.hyps" [OF True _ refl refl]) auto
      finally show ?thesis using no d by simp
    qed
  qed
qed

lemma request_get_header_eq:
  "headers_ok r \<Longrightarrow> request_get_header r (Some n) = Ret
     (case find (header_named r n) (take (num_headers r) (headers r)) of
        None \<Rightarrow> \<lparr>str_data = None, str_size = 0\<rparr>
      | Some h \<Rightarrow> slice_string (rq_buffer r) (hvalue h) (hvalue_len h))"
  by (simp add: request_get_header_def get_header_loop_eq)

section \<open>Reading from the client\<close>

text \<open>A bound on the number of reads that consume a list of events.\<close>

fun reads_left :: "rd list \<Rightarrow> nat" where
  "reads_left [] = 0"
| "reads_left (Bytes s # es) = Suc (length s + reads_left es)"
| "reads_left (e # es) = Suc (reads_left es)"

text \<open>What one \<open>read\<close> may do to a connection whose client eventually closes it.\<close>

definition read_step :: "nat \<Rightarrow> rd list \<Rightarrow> read_result \<Rightarrow> rd list \<Rightarrow> bool" where
  "read_step n es r es' \<longleftrightarrow> Eof \<in> set es' \<and>
     (case r of
        Got bs \<Rightarrow> length bs \<le> n \<and> stream es = bs @ stream es' \<and>
          reads_left es' \<le> reads_left es \<and> (bs \<noteq> [] \<longrightarrow> reads_left es' < reads_left es)
      | Err e \<Rightarrow> stream es = stream es' \<and> reads_left es' < reads_left es)"

lemma wp_sys_read_step:
  assumes "n > 0" and "Eof \<in> set (pending w fd)"
    and "\<And>r es'. read_step n (pending w fd) r es' \<Longrightarrow> Q r (set_pending fd es' w)"
  shows "wp (sys_read fd n) Q E w"
proof (cases "pending w fd")
  case Nil
  with assms(2) show ?thesis by simp
next
  case (Cons e es)
  show ?thesis
  proof (cases e)
    case (Bytes s)
    have "read_step n (pending w fd) (Got s) es" if "length s \<le> n"
      using that Cons Bytes assms(2) by (auto simp: read_step_def)
    moreover have "read_step n (pending w fd) (Got (take n s)) (Bytes (drop n s) # es)" if "\<not> length s \<le> n"
      using that Cons Bytes assms(1,2) by (auto simp: read_step_def)
    ultimately show ?thesis
      using Cons Bytes assms(1,3) by (auto simp: wp_def sys_read_def)
  next
    case Eof
    have "read_step n (pending w fd) (Got []) (pending w fd)"
      using assms(2) Cons Eof by (auto simp: read_step_def)
    then have "Q (Got []) (set_pending fd (pending w fd) w)" by (rule assms(3))
    with Cons Eof assms(1) show ?thesis by (simp add: wp_def sys_read_def)
  next
    case (Fail x)
    have "read_step n (pending w fd) (Err x) es"
      using Cons Fail assms(2) by (auto simp: read_step_def)
    with Cons Fail assms(1,3) show ?thesis by (simp add: wp_def sys_read_def)
  qed
qed

lemma read_step_trans_err:
  "read_step n es (Err e) es' \<Longrightarrow> read_step n es' r es'' \<Longrightarrow> read_step n es r es''"
  by (auto simp: read_step_def split: read_result.splits)

text \<open>Retrying ends: each interrupted read consumes an event.\<close>

lemma wp_read_retry:
  assumes "n > 0"
  shows "Eof \<in> set (pending w fd) \<Longrightarrow> reads_left (pending w fd) < tries \<Longrightarrow>
    (\<And>r es'. read_step n (pending w fd) r es' \<Longrightarrow> r \<noteq> Err EINTR \<Longrightarrow>
       Q r (set_pending fd es' w)) \<Longrightarrow>
    wp (read_retry tries fd n) Q E w"
proof (induction tries arbitrary: w)
  case 0
  then show ?case by simp
next
  case (Suc tries)
  show ?case
    unfolding read_retry.simps wp_bind
  proof (rule wp_sys_read_step [OF assms Suc.prems(1)])
    fix r es'
    assume step: "read_step n (pending w fd) r es'"
    let ?w = "set_pending fd es' w"
    show "wp (if r = Err EINTR then read_retry tries fd n else return r) Q E ?w"
    proof (cases "r = Err EINTR")
      case False
      with Suc.prems(3) [OF step] show ?thesis by simp
    next
      case True
      have "wp (read_retry tries fd n) Q E ?w"
      proof (rule Suc.IH)
        show "Eof \<in> set (pending ?w fd)" using step by (simp add: read_step_def)
        show "reads_left (pending ?w fd) < tries" using step True Suc.prems(2) by (simp add: read_step_def)
        fix r' es''
        assume "read_step n (pending ?w fd) r' es''" and r': "r' \<noteq> Err EINTR"
        then have "read_step n es' r' es''" by simp
        with step True have "read_step n (pending w fd) r' es''" by (blast intro: read_step_trans_err)
        from Suc.prems(3) [OF this r'] show "Q r' (set_pending fd es'' ?w)" by simp
      qed
      with True show ?thesis by simp
    qed
  qed
qed

section \<open>The contract of the parser\<close>

text \<open>
  What picohttpparser documents: the result is -1 (malformed), -2 (incomplete) or the
  length of the request; in the last case the method, the path and the headers are slices of
  the bytes it was given, the path is not empty, and no more headers are reported than
  there was room for.
\<close>

definition phr_contract :: "env \<Rightarrow> bool" where
  "phr_contract E \<longleftrightarrow> (\<forall>buf seen room. let p = phr_parse_request E buf seen room in
     (phr_ret p = -1 \<or> phr_ret p = -2 \<or> 0 < phr_ret p) \<and> phr_num_headers p \<le> room \<and>
     (0 < phr_ret p \<longrightarrow>
        phr_method p + phr_method_len p \<le> length buf \<and>
        phr_path p + phr_path_len p \<le> length buf \<and> 0 < phr_path_len p \<and>
        length (phr_headers p) = phr_num_headers p \<and>
        list_all (header_in buf) (phr_headers p)))"

lemma phr_contractD:
  assumes "phr_contract E" and "p = phr_parse_request E buf seen room"
  shows "phr_ret p = -1 \<or> phr_ret p = -2 \<or> 0 < phr_ret p"
    and "0 < phr_ret p \<Longrightarrow> phr_method p + phr_method_len p \<le> length buf"
    and "0 < phr_ret p \<Longrightarrow> phr_path p + phr_path_len p \<le> length buf"
    and "0 < phr_ret p \<Longrightarrow> 0 < phr_path_len p"
    and "phr_num_headers p \<le> room"
    and "0 < phr_ret p \<Longrightarrow> length (phr_headers p) = phr_num_headers p"
    and "0 < phr_ret p \<Longrightarrow> list_all (header_in buf) (phr_headers p)"
  using assms by (simp_all add: phr_contract_def Let_def)

text \<open>The buffer of a request: an array of \<open>MAX_BUFFER\<close> bytes, of which \<open>received\<close> are filled; the
  array of headers has \<open>MAX_HEADERS\<close> entries.\<close>

definition buffer_ok :: "request \<Rightarrow> bool" where
  "buffer_ok r \<longleftrightarrow>
     length (rq_buffer r) = MAX_BUFFER \<and> len_buffer r \<le> MAX_BUFFER \<and> num_headers r \<le> MAX_HEADERS"

definition received :: "request \<Rightarrow> string" where
  "received r = take (len_buffer r) (rq_buffer r)"

text \<open>What the loop leaves: nothing the client sent is lost or reordered, and a parsed request is
  the parser's answer on exactly the bytes received.\<close>

definition read_loop_post :: "env \<Rightarrow> rd list \<Rightarrow> string \<Rightarrow> read_end \<Rightarrow> request \<Rightarrow> rd list \<Rightarrow> bool" where
  "read_loop_post E es before r req es' \<longleftrightarrow>
     buffer_ok req \<and> Eof \<in> set es' \<and> before @ stream es = received req @ stream es' \<and>
     reads_left es' \<le> reads_left es \<and>
     (r \<noteq> Early CLOSE_CONNECTION \<and> r \<noteq> Early ERROR \<longrightarrow> reads_left es' < reads_left es) \<and>
     (case r of
        Early code \<Rightarrow> code \<in> {CLOSE_CONNECTION, ERROR, BAD_REQUEST, REQUEST_TOO_LONG} \<and>
          (code = REQUEST_TOO_LONG \<longrightarrow> len_buffer req = MAX_BUFFER)
      | Parsed p \<Rightarrow> 0 < phr_ret p \<and> headers req = phr_headers p \<and> num_headers req = phr_num_headers p \<and>
          (\<exists>seen room. p = phr_parse_request E (received req) seen room \<and> room \<le> MAX_HEADERS))"

lemma wp_request_pass:
  assumes phr: "phr_contract E" and req: "buffer_ok req" and eof: "Eof \<in> set es'"
    and step: "read_step (MAX_BUFFER - len_buffer req) es r es'" and eintr: "r \<noteq> Err EINTR"
    and leave: "\<And>e req' l. read_loop_post E es (received req) e req' es' \<Longrightarrow> Q (Some e, req') (w\<lparr>log_out := l\<rparr>)"
    and again: "\<And>req'. buffer_ok req' \<Longrightarrow> len_buffer req' < MAX_BUFFER \<Longrightarrow> reads_left es' < reads_left es \<Longrightarrow>
      received req @ stream es = received req' @ stream es' \<Longrightarrow> Q (None, req') w"
  shows "wp (request_pass req r) Q E w"
proof (cases "r = Got [] \<or> (\<exists>e. r = Err e)")
  case True
  have "Q (Some (Early code), req) (w\<lparr>log_out := l\<rparr>)" if "code \<in> {CLOSE_CONNECTION, ERROR}" for code l
    using that step req eof True by (intro leave) (auto simp: read_loop_post_def read_step_def)
  with True show ?thesis by (auto simp: request_pass_def wp_print)
next
  case False
  then obtain bs where r: "r = Got bs" and bs: "bs \<noteq> []" by (cases r) auto
  from step have len: "length bs \<le> MAX_BUFFER - len_buffer req" and str: "stream es = bs @ stream es'"
    and less: "reads_left es' < reads_left es"
    using bs by (auto simp: read_step_def r)
  then have fit: "len_buffer req + length bs \<le> length (rq_buffer req)" using req by (auto simp: buffer_ok_def)
  let ?buf = "overwrite (rq_buffer req) (len_buffer req) bs" and ?n = "len_buffer req + length bs"
  define p where "p = phr_parse_request E (take ?n ?buf) (len_buffer req) (num_headers req)"
  let ?req = "req\<lparr>rq_buffer := ?buf, old_len_buffer := len_buffer req, len_buffer := ?n,
    minor_version := phr_minor_version p, headers := phr_headers p, num_headers := phr_num_headers p\<rparr>"
  define q where "q = ?req"
  have q: "buffer_ok q" "received q = received req @ bs" "len_buffer q = ?n"
    "headers q = phr_headers p" "num_headers q = phr_num_headers p"
    using req fit phr_contractD(5) [OF phr p_def] by (simp_all add: q_def buffer_ok_def received_def)
  have "p = phr_parse_request E (received q) (len_buffer req) (num_headers req)"
    unfolding q(2) using fit req by (simp add: p_def received_def buffer_ok_def)
  then have ex: "\<exists>seen room. p = phr_parse_request E (received req @ bs) seen room \<and> room \<le> MAX_HEADERS"
    using req unfolding q(2) buffer_ok_def by blast
  have post: "read_loop_post E es (received req) e q es'"
    if "e = Parsed p \<and> 0 < phr_ret p \<or> e = Early BAD_REQUEST \<or> e = Early REQUEST_TOO_LONG \<and> ?n = MAX_BUFFER" for e
    using that
  proof (elim disjE conjE)
    assume "e = Early REQUEST_TOO_LONG" and n: "?n = MAX_BUFFER"
    moreover from n q(3) have "len_buffer q = MAX_BUFFER" by simp
    ultimately show ?thesis using q(1,2) str eof less by (simp add: read_loop_post_def)
  qed (use less in \<open>simp_all add: read_loop_post_def q str eof ex\<close>)
  have ret: "phr_ret p = -1 \<or> phr_ret p = -2 \<or> 0 < phr_ret p"
    using phr_contractD(1) [OF phr p_def] .
  have more: "Q (None, q) w" if "?n \<noteq> MAX_BUFFER"
    using that q str less by (intro again) (auto simp: buffer_ok_def)
  have "wp (request_pass req r) Q E w = wp (request_verdict p q) Q E w"
    using bs by (simp add: request_pass_def r mem_write_ok [OF fit] Let_def p_def [symmetric] q_def [symmetric])
  moreover have "Q (Some (Parsed p), q) w" if "phr_ret p > 0"
    using leave [OF post, of "Parsed p" "log_out w"] that by simp
  moreover have "Q (Some (Early BAD_REQUEST), q) (w\<lparr>log_out := l\<rparr>)" for l by (intro leave post) simp
  moreover have "Q (Some (Early REQUEST_TOO_LONG), q) (w\<lparr>log_out := l\<rparr>)" if "?n = MAX_BUFFER" for l
    by (intro leave post) (simp add: that)
  ultimately show ?thesis using ret more q(3) by (auto simp: request_verdict_def wp_print)
qed

lemma wp_request_read_loop:
  assumes phr: "phr_contract E"
  shows "buffer_ok req \<Longrightarrow> len_buffer req < MAX_BUFFER \<Longrightarrow> Eof \<in> set (pending w fd) \<Longrightarrow>
    reads_left (pending w fd) < passes \<Longrightarrow> reads_left (pending w fd) < tries \<Longrightarrow>
    (\<And>r req' es' l. read_loop_post E (pending w fd) (received req) r req' es' \<Longrightarrow>
       Q (r, req') ((set_pending fd es' w)\<lparr>log_out := l\<rparr>)) \<Longrightarrow>
    wp (request_read_loop passes tries req fd) Q E w"
proof (induction passes arbitrary: req w)
  case 0
  then show ?case by simp
next
  case (Suc passes)
  have n: "0 < MAX_BUFFER - len_buffer req" using Suc.prems(2) by simp
  show ?case
    unfolding request_read_loop.simps wp_bind
  proof (rule wp_read_retry [OF n Suc.prems(3,5)])
    fix r es'
    assume step: "read_step (MAX_BUFFER - len_buffer req) (pending w fd) r es'" and r: "r \<noteq> Err EINTR"
    let ?w = "set_pending fd es' w"
    have eof: "Eof \<in> set es'" using step by (simp add: read_step_def)
    show "wp (request_pass req r) (\<lambda>a. wp (case a of (e, request) \<Rightarrow> (case e of
         None \<Rightarrow> request_read_loop passes tries request fd | Some e \<Rightarrow> return (e, request))) Q E) E ?w"
    proof (rule wp_request_pass [OF phr Suc.prems(1) eof step r])
      fix e req' l
      assume "read_loop_post E (pending w fd) (received req) e req' es'"
      then show "wp (case (Some e, req') of (e, request) \<Rightarrow> (case e of
         None \<Rightarrow> request_read_loop passes tries request fd | Some e \<Rightarrow> return (e, request))) Q E (?w\<lparr>log_out := l\<rparr>)"
        using Suc.prems(6) by simp
    next
      fix req'
      assume req': "buffer_ok req'" "len_buffer req' < MAX_BUFFER"
        and less: "reads_left es' < reads_left (pending w fd)"
        and str: "received req @ stream (pending w fd) = received req' @ stream es'"
      have "wp (request_read_loop passes tries req' fd) Q E ?w"
      proof (rule Suc.IH [OF req'])
        fix r2 req2 es2 l
        assume "read_loop_post E (pending ?w fd) (received req') r2 req2 es2"
        then have "read_loop_post E (pending w fd) (received req) r2 req2 es2"
          using str less by (auto simp: read_loop_post_def)
        then show "Q (r2, req2) ((set_pending fd es2 ?w)\<lparr>log_out := l\<rparr>)"
          using Suc.prems(6) by simp
      qed (use eof less Suc.prems(4,5) in simp_all)
      then show "wp (case (None, req') of (e, request) \<Rightarrow> (case e of
         None \<Rightarrow> request_read_loop passes tries request fd | Some e \<Rightarrow> return (e, request))) Q E ?w"
        by simp
    qed
  qed
qed

section \<open>The whole of request_process\<close>

lemma parse_body_no_headers:
  assumes "num_headers r = 0" and "length (headers r) < 2 ^ 64"
  shows "parse_body r = Undef Out_Of_Bounds"
proof -
  have "unat (of_nat (num_headers r) - 1 :: size_t) = 2 ^ 64 - 1"
    using assms(1) by (simp add: unsigned_minus_1_eq_mask mask_eq_exp_minus_1)
  with assms show ?thesis by (simp add: parse_body_def Let_def)
qed

definition body_offset :: "request \<Rightarrow> nat" where
  "body_offset r = (let h = last (headers r) in hvalue h + hvalue_len h + 4)"

lemma parse_body_last:
  assumes "num_headers r = length (headers r)" and "headers r \<noteq> []" and "length (headers r) < 2 ^ 64"
  shows "parse_body r = Ret (r\<lparr>body := \<lparr>str_data = Some (drop (body_offset r) (rq_buffer r)),
    str_size = of_nat (len_buffer r) - of_nat (body_offset r)\<rparr>\<rparr>)"
proof -
  have one: "(1 :: size_t) \<le> of_nat (length (headers r))"
    using assms by (cases "headers r") (simp_all add: word_le_nat_alt unat_of_nat_small del: power_numeral of_nat_Suc)
  have "unat (of_nat (length (headers r)) - 1 :: size_t) = length (headers r) - 1"
    using assms(3) by (simp add: unat_diff_le [OF one] unat_of_nat_small del: power_numeral)
  moreover have "length (headers r) - 1 < length (headers r)" using assms(2) by simp
  ultimately show ?thesis
    using assms(1,2) by (simp add: parse_body_def body_offset_def Let_def last_conv_nth not_le del: One_nat_def)
qed

lemma bytes_body:
  assumes "buffer_ok r" and "off \<le> len_buffer r"
  shows "bytes \<lparr>str_data = Some (drop off (rq_buffer r)), str_size = of_nat (len_buffer r) - of_nat off\<rparr>
      = drop off (received r)"
    and "readable \<lparr>str_data = Some (drop off (rq_buffer r)), str_size = of_nat (len_buffer r) - of_nat off\<rparr>"
proof -
  have n: "unat (of_nat (len_buffer r) :: size_t) = len_buffer r" "unat (of_nat off :: size_t) = off"
    using assms by (simp_all add: buffer_ok_def MAX_BUFFER_def unat_of_nat_small)
  have "unat (of_nat (len_buffer r) - of_nat off :: size_t) = len_buffer r - off"
    using assms n by (simp add: unat_diff_le word_le_nat_alt)
  then show "bytes \<lparr>str_data = Some (drop off (rq_buffer r)), str_size = of_nat (len_buffer r) - of_nat off\<rparr>
      = drop off (received r)"
    and "readable \<lparr>str_data = Some (drop off (rq_buffer r)), str_size = of_nat (len_buffer r) - of_nat off\<rparr>"
    using assms by (simp_all add: bytes_make received_def readable_def buffer_ok_def MAX_BUFFER_def drop_take diff_le_mono
      less_imp_diff_less)
qed

text \<open>The request as it stands after a call that returned \<open>OK\<close>, related to the parser's answer \<open>p\<close> on
  the bytes received: the raw path has no two dots in a row, and splits at its first question mark.\<close>

definition request_matches :: "request \<Rightarrow> phr_result \<Rightarrow> bool" where
  "request_matches r p \<longleftrightarrow>
     (let raw = slice (phr_path p) (phr_path_len p) (received r) in
      buffer_ok r \<and> headers_ok r \<and> headers r = phr_headers p \<and> num_headers r = phr_num_headers p \<and>
      readable (rq_method r) \<and> bytes (rq_method r) = slice (phr_method p) (phr_method_len p) (received r) \<and>
      \<not> has_dotdot raw \<and>
      readable (path r) \<and> str_data (path r) \<noteq> None \<and> bytes (path r) = before_query raw \<and>
      readable (url_args r) \<and> bytes (url_args r) = (if CHR ''?'' \<in> set raw then after_query raw else []) \<and>
      (body_offset r \<le> len_buffer r \<longrightarrow>
         readable (body r) \<and> bytes (body r) = drop (body_offset r) (received r)))"

definition process_post :: "env \<Rightarrow> rd list \<Rightarrow> int \<Rightarrow> request \<Rightarrow> rd list \<Rightarrow> bool" where
  "process_post E es code r es' \<longleftrightarrow>
     code \<in> {OK, CLOSE_CONNECTION, ERROR, BAD_REQUEST, REQUEST_TOO_LONG} \<and>
     Eof \<in> set es' \<and> stream es = received r @ stream es' \<and> reads_left es' \<le> reads_left es \<and>
     (code \<noteq> CLOSE_CONNECTION \<and> code \<noteq> ERROR \<longrightarrow> reads_left es' < reads_left es) \<and>
     (code = OK \<longrightarrow> (\<exists>p seen room. p = phr_parse_request E (received r) seen room \<and>
        0 < phr_ret p \<and> request_matches r p))"

definition parser_finds_headers :: "env \<Rightarrow> bool" where
  "parser_finds_headers E \<longleftrightarrow>
     (\<forall>buf seen room. 0 < phr_ret (phr_parse_request E buf seen room) \<longrightarrow>
        0 < phr_num_headers (phr_parse_request E buf seen room))"

text \<open>The steps that follow the parser, one equation for each outcome.\<close>

lemma request_accept_eq:
  fixes p :: phr_result and req :: request
  defines "req1 \<equiv> req\<lparr>rq_method := slice_string (rq_buffer req) (phr_method p) (phr_method_len p),
    path := slice_string (rq_buffer req) (phr_path p) (phr_path_len p)\<rparr>"
  assumes "readable (path req1)" and "0 < phr_path_len p" and "phr_path_len p < 2 ^ 64"
  shows "request_accept p req =
     (if has_dotdot (bytes (path req1)) then Ret (BAD_REQUEST, req1)
      else obind (parse_url_args req1) (\<lambda>r. obind (parse_body r) (\<lambda>r. Ret (OK, r))))"
proof -
  have "str_size (path req1) \<noteq> 0"
    using assms(3,4) by (simp add: req1_def word_unat_eq_iff unat_of_nat_small del: power_numeral)
  then have "is_request_valid req1 = Ret (\<not> has_dotdot (bytes (path req1)))"
    using assms(2) by (rule is_request_valid_eq [rotated])
  then show ?thesis by (simp add: request_accept_def req1_def Let_def)
qed

lemma header_in_take: "header_in (take n buf) h \<Longrightarrow> header_in buf h"
  by (auto simp: header_in_def)

lemma request_accept_post:
  assumes phr: "phr_contract E" and some: "parser_finds_headers E"
    and req: "buffer_ok req" "headers req = phr_headers p" "num_headers req = phr_num_headers p"
    and p: "p = phr_parse_request E (received req) seen room" "0 < phr_ret p" and room: "room \<le> MAX_HEADERS"
  obtains code r where "request_accept p req = Ret (code, r)"
    and "code = OK \<and> request_matches r p \<and> received r = received req \<or> code = BAD_REQUEST \<and> received r = received req"
proof -
  let ?raw = "slice (phr_path p) (phr_path_len p) (received req)"
  let ?m = "slice (phr_method p) (phr_method_len p) (received req)"
  note contract = phr_contractD [OF phr p(1)]
  define req1 where "req1 = req\<lparr>rq_method := slice_string (rq_buffer req) (phr_method p) (phr_method_len p),
    path := slice_string (rq_buffer req) (phr_path p) (phr_path_len p)\<rparr>"
  have buf: "length (rq_buffer req) = 8192" and len: "len_buffer req \<le> 8192" "length (received req) = len_buffer req"
    using req(1) by (auto simp: buffer_ok_def received_def MAX_BUFFER_def)
  have m: "phr_method p + phr_method_len p \<le> len_buffer req" and pa: "phr_path p + phr_path_len p \<le> len_buffer req"
    using contract(2,3) p(2) len by simp_all
  have rd: "readable (path req1)" "readable (rq_method req1)"
    using m pa len buf by (auto simp: req1_def intro!: slice_string_readable)
  have raw: "bytes (path req1) = ?raw" "bytes (rq_method req1) = ?m"
    using m pa len by (simp_all add: req1_def bytes_slice_string received_def slice_take)
  have kept: "buffer_ok req1" "headers req1 = phr_headers p" "num_headers req1 = phr_num_headers p"
    "rq_buffer req1 = rq_buffer req" "len_buffer req1 = len_buffer req"
    using req by (simp_all add: req1_def buffer_ok_def)
  have nh: "length (phr_headers p) = phr_num_headers p" "phr_headers p \<noteq> []" "length (phr_headers p) < 2 ^ 64"
  proof -
    show l: "length (phr_headers p) = phr_num_headers p" using contract(6) p(2) .
    have "0 < phr_num_headers p" using some p by (simp add: parser_finds_headers_def)
    with l show "phr_headers p \<noteq> []" by auto
    show "length (phr_headers p) < 2 ^ 64" using l contract(5) room by (simp add: MAX_HEADERS_def)
  qed
  have hin: "list_all (header_in (rq_buffer req)) (phr_headers p)"
    using contract(7) p(2) by (auto simp: received_def list_all_iff dest: header_in_take)
  have acc: "request_accept p req = (if has_dotdot ?raw then Ret (BAD_REQUEST, req1)
      else obind (parse_url_args req1) (\<lambda>r. obind (parse_body r) (\<lambda>r. Ret (OK, r))))"
    using request_accept_eq [where p = p and req = req] rd(1) contract(4) p(2) pa len raw(1) by (simp add: req1_def)
  show thesis
  proof (cases "has_dotdot ?raw")
    case True
    with acc show thesis
      using kept by (intro that [of BAD_REQUEST req1]) (simp_all add: received_def)
  next
    case False
    obtain r2 where r2: "parse_url_args req1 = Ret r2" "bytes (path r2) = before_query ?raw" "readable (path r2)"
      "bytes (url_args r2) = (if CHR ''?'' \<in> set ?raw then after_query ?raw else [])" "readable (url_args r2)"
      "r2 = req1\<lparr>url_args := url_args r2, path := path r2\<rparr>"
    proof (cases "CHR ''?'' \<in> set ?raw")
      case True
      then show thesis
        using parse_url_args_query [OF rd(1)] raw(1) by (metis that)
    next
      case no: False
      then have "before_query ?raw = ?raw" by (auto simp: before_query_def intro: takeWhile_all)
      with no show thesis
        using parse_url_args_no_query [OF rd(1)] raw(1) rd(1)
        by (intro that [of "req1\<lparr>url_args := \<lparr>str_data = None, str_size = 0\<rparr>\<rparr>"])
          (simp_all add: bytes_make readable_def)
    qed
    define r3 where "r3 = r2\<lparr>body := \<lparr>str_data = Some (drop (body_offset r2) (rq_buffer r2)),
      str_size = of_nat (len_buffer r2) - of_nat (body_offset r2)\<rparr>\<rparr>"
    obtain a b where ab: "r2 = req1\<lparr>url_args := a, path := b\<rparr>" using r2(6) by blast
    have k2: "buffer_ok r2" "headers r2 = phr_headers p" "num_headers r2 = phr_num_headers p"
      "rq_buffer r2 = rq_buffer req" "len_buffer r2 = len_buffer req" "rq_method r2 = rq_method req1"
      using kept by (simp_all add: ab buffer_ok_def)
    have "parse_body r2 = Ret r3"
      using nh unfolding r3_def by (intro parse_body_last) (simp_all add: k2)
    with acc False r2(1) have "request_accept p req = Ret (OK, r3)" by simp
    moreover have k3: "received r3 = received req" by (simp add: r3_def received_def k2)
    moreover have "request_matches r3 p"
    proof -
      have "body_offset r2 \<le> len_buffer r2 \<longrightarrow> readable (body r3) \<and> bytes (body r3) = drop (body_offset r2) (received r2)"
        using bytes_body [OF k2(1)] by (simp add: r3_def)
      moreover have "body_offset r3 = body_offset r2" "received r2 = received req" "len_buffer r3 = len_buffer r2"
        by (simp_all add: r3_def body_offset_def received_def k2)
      moreover have "buffer_ok r3" "headers_ok r3"
        using k2 hin buf nh by (simp_all add: r3_def buffer_ok_def headers_ok_def)
      moreover have "str_data (path req1) \<noteq> None"
        by (simp add: req1_def)
      then have "str_data (path r3) \<noteq> None"
        using parse_url_args_loop_data r2(1) by (auto simp: r3_def parse_url_args_def)
      ultimately show ?thesis
        using r2 k2 k3 rd raw False by (simp add: request_matches_def Let_def r3_def)
    qed
    ultimately show thesis by (intro that) auto
  qed
qed

text \<open>The whole call: it returns whatever the client sends, provided the client eventually closes the
  connection; one pass more than there are reads left is enough.\<close>

lemma wp_request_process:
  assumes phr: "phr_contract E" "parser_finds_headers E"
    and buf: "length (rq_buffer req) = MAX_BUFFER" and eof: "Eof \<in> set (pending w fd)"
    and fuel: "reads_left (pending w fd) < passes" "reads_left (pending w fd) < tries"
    and Q: "\<And>code r es' l. process_post E (pending w fd) code r es' \<Longrightarrow>
      Q (code, r) ((set_pending fd es' w)\<lparr>log_out := l\<rparr>)"
  shows "wp (request_process passes tries req fd) Q E w"
  unfolding request_process_def wp_bind
proof (rule wp_request_read_loop [OF phr(1) _ _ eof fuel])
  let ?start = "req\<lparr>len_buffer := 0, num_headers := MAX_HEADERS\<rparr>"
  show "buffer_ok ?start" "len_buffer ?start < MAX_BUFFER"
    using buf by (simp_all add: buffer_ok_def MAX_BUFFER_def)
  fix r req' es' l
  assume post: "read_loop_post E (pending w fd) (received ?start) r req' es'"
  have start: "received ?start = []" by (simp add: received_def)
  show "wp (case (r, req') of (r, request) \<Rightarrow> (case r of Early code \<Rightarrow> return (code, request)
       | Parsed p \<Rightarrow> lift (request_accept p request))) Q E ((set_pending fd es' w)\<lparr>log_out := l\<rparr>)"
  proof (cases r)
    case (Early code)
    with post start show ?thesis by (auto simp: read_loop_post_def process_post_def intro!: Q)
  next
    case (Parsed p)
    with post obtain seen room where p: "p = phr_parse_request E (received req') seen room" "0 < phr_ret p"
      and room: "room \<le> MAX_HEADERS"
      and req': "buffer_ok req'" "headers req' = phr_headers p" "num_headers req' = phr_num_headers p"
      by (auto simp: read_loop_post_def)
    show ?thesis
    proof (rule request_accept_post [OF phr req' p room])
      fix code q
      assume q: "request_accept p req' = Ret (code, q)"
        "code = OK \<and> request_matches q p \<and> received q = received req' \<or> code = BAD_REQUEST \<and> received q = received req'"
      then have "process_post E (pending w fd) code q es'"
      proof -
        have "code = OK \<Longrightarrow> \<exists>p seen room. p = phr_parse_request E (received q) seen room \<and>
            0 < phr_ret p \<and> request_matches q p"
          using q(2) p by (intro exI [of _ p] exI [of _ seen] exI [of _ room]) auto
        then show ?thesis
          using post start q(2) Parsed by (auto simp: read_loop_post_def process_post_def)
      qed
      with q(1) Q Parsed show ?thesis by simp
    qed
  qed
qed

lemma request_matches_path:
  assumes "request_matches r p"
  shows "\<not> has_dotdot (bytes (path r))" and "CHR ''?'' \<notin> set (bytes (path r))"
proof -
  obtain raw where raw: "\<not> has_dotdot raw" "bytes (path r) = before_query raw"
    using assms by (auto simp: request_matches_def Let_def)
  have "raw = before_query raw @ dropWhile (\<lambda>c. c \<noteq> CHR ''?'') raw" by (simp add: before_query_def)
  then have "\<not> has_dotdot (before_query raw)" using raw(1) has_dotdot_append by metis
  with raw(2) show "\<not> has_dotdot (bytes (path r))" by simp
  show "CHR ''?'' \<notin> set (bytes (path r))" using raw(2) by (auto simp: before_query_def dest: set_takeWhileD)
qed

lemma parse_url_args_frame:
  assumes "readable (path r)"
  obtains r' where "parse_url_args r = Ret r'" and "r' = r\<lparr>url_args := url_args r', path := path r'\<rparr>"
proof (cases "CHR ''?'' \<in> set (bytes (path r))")
  case True
  from parse_url_args_query [OF assms this] that show thesis by metis
next
  case False
  from parse_url_args_no_query [OF assms this] that show thesis by simp
qed

section \<open>Properties\<close>

text \<open>A request whose buffer was never written, for the witnesses.\<close>

definition demo_request :: request where
  "demo_request = \<lparr>rq_buffer = replicate MAX_BUFFER CHR ''?'', len_buffer = 0, old_len_buffer = 0,
     rq_method = \<lparr>str_data = None, str_size = 0\<rparr>, path = \<lparr>str_data = Some ''/a?b=c'', str_size = 6\<rparr>,
     body = \<lparr>str_data = None, str_size = 0\<rparr>, url_args = \<lparr>str_data = None, str_size = 0\<rparr>,
     minor_version = 0, headers = [], num_headers = 0\<rparr>"

lemma demo_phr_contract: "phr_contract demo_env"
  by (simp add: phr_contract_def demo_parse_def demo_answer_def Let_def header_in_def demo_header_def)

lemma demo_finds_headers: "parser_finds_headers demo_env"
  by (simp add: parser_finds_headers_def demo_parse_def demo_answer_def)

lemma demo_request_buffer: "length (rq_buffer demo_request) = MAX_BUFFER"
  by (simp add: demo_request_def)

lemma demo_reads: "reads_left (pending demo_world 7) < 40"
  by (simp add: demo_text_def)

lemma demo_read: "sys_read 7 8192 demo_env demo_world = Ret (Got demo_text, set_pending 7 [Eof] demo_world)"
  by (simp add: sys_read_def demo_text_def)

definition demo_parsed :: request where
  "demo_parsed = demo_request\<lparr>rq_buffer := demo_text @ replicate 8163 CHR ''?'', len_buffer := 29,
     minor_version := 1, headers := [demo_header], num_headers := 1\<rparr>"

lemma demo_pass:
  "request_pass (demo_request\<lparr>len_buffer := 0, num_headers := MAX_HEADERS\<rparr>) (Got demo_text) demo_env w
     = Ret ((Some (Parsed (demo_answer 29 [demo_header])), demo_parsed), w)"
  by (simp add: request_pass_def demo_text_def bind_def lift_def asks_def mem_write_def overwrite_def Let_def
    demo_request_def MAX_BUFFER_def MAX_HEADERS_def demo_parse_def demo_answer_def request_verdict_def return_def demo_parsed_def)

lemma demo_accept: "\<exists>r. request_accept (demo_answer 29 [demo_header]) demo_parsed = Ret (OK, r)"
  by (simp add: request_accept_def demo_answer_def demo_parsed_def demo_text_def is_request_valid_def
    is_request_valid_loop.simps parse_url_args_def parse_url_args_loop.simps char_at_def parse_body_def Let_def)

lemma demo_run:
  "\<exists>r w'. request_process (Suc a) (Suc b) demo_request 7 demo_env demo_world = Ret ((OK, r), w')"
  using demo_accept
  by (auto simp: request_process_def bind_def demo_read demo_pass lift_def return_def demo_request_def [THEN arg_cong, of len_buffer] MAX_BUFFER_def)



text \<open>The path \<open>request_process\<close> hands on with \<open>OK\<close> never has two dots in a row anywhere, nor a
  question mark: it cannot name a directory above the one it is appended to.\<close>

theorem request_path_has_no_dotdot:
  assumes "phr_contract E" and "parser_finds_headers E"
    and "length (rq_buffer req) = MAX_BUFFER" and "Eof \<in> set (pending w fd)"
    and "reads_left (pending w fd) < passes" and "reads_left (pending w fd) < tries"
    and "request_process passes tries req fd E w = Ret ((OK, r), w')"
  shows "\<not> (\<exists>u v. bytes (path r) = u @ ''..'' @ v) \<and> CHR ''?'' \<notin> set (bytes (path r))"
proof -
  have "wp (request_process passes tries req fd) (\<lambda>(code, r) w'. \<exists>es'.
      process_post E (pending w fd) code r es') E w"
    using assms(1-6) by (intro wp_request_process) auto
  with assms(7) obtain p where "request_matches r p" by (auto simp: wp_Ret process_post_def)
  from request_matches_path [OF this] show ?thesis by (simp add: has_dotdot_iff)
qed

theorem request_path_has_no_dotdot_witness:
  "\<exists>r w'. request_process 40 40 demo_request 7 demo_env demo_world = Ret ((OK, r), w') \<and>
     \<not> (\<exists>u v. bytes (path r) = u @ ''..'' @ v) \<and> CHR ''?'' \<notin> set (bytes (path r))"
proof -
  obtain r w' where run: "request_process 40 40 demo_request 7 demo_env demo_world = Ret ((OK, r), w')"
    using demo_run [of 39 39] by auto
  have "\<not> (\<exists>u v. bytes (path r) = u @ ''..'' @ v) \<and> CHR ''?'' \<notin> set (bytes (path r))"
    by (rule request_path_has_no_dotdot [OF demo_phr_contract demo_finds_headers demo_request_buffer _
        demo_reads demo_reads run]) simp
  with run show ?thesis by blast
qed

text \<open>C20: \<open>_parse_url_args\<close> splits a path at its first question mark and loses nothing else: the new
  path, the question mark and the arguments put together are the old path. A path without one is left
  as it is, and the arguments are empty.\<close>

theorem parse_url_args_split:
  assumes "readable (path r)"
  shows "\<exists>r'. parse_url_args r = Ret r' \<and> readable (path r') \<and> readable (url_args r') \<and>
    CHR ''?'' \<notin> set (bytes (path r')) \<and> r' = r\<lparr>url_args := url_args r', path := path r'\<rparr> \<and>
    bytes (path r) = (if CHR ''?'' \<in> set (bytes (path r))
      then bytes (path r') @ ''?'' @ bytes (url_args r') else bytes (path r')) \<and>
    (CHR ''?'' \<notin> set (bytes (path r)) \<longrightarrow> bytes (url_args r') = [])"
proof (cases "CHR ''?'' \<in> set (bytes (path r))")
  case True
  then obtain r' where r': "parse_url_args r = Ret r'" "bytes (path r') = before_query (bytes (path r))"
    "readable (path r')" "bytes (url_args r') = after_query (bytes (path r))" "readable (url_args r')"
    "r' = r\<lparr>url_args := url_args r', path := path r'\<rparr>"
    using parse_url_args_query [OF assms] by metis
  have "CHR ''?'' \<notin> set (before_query (bytes (path r)))"
    by (auto simp: before_query_def dest: set_takeWhileD)
  with r' True query_split [OF True] show ?thesis by (intro exI [of _ r']) simp
next
  case False
  with assms show ?thesis
    by (intro exI [of _ "r\<lparr>url_args := \<lparr>str_data = None, str_size = 0\<rparr>\<rparr>"])
      (simp add: parse_url_args_no_query bytes_make readable_def)
qed

theorem parse_url_args_split_witness:
  "\<exists>r'. parse_url_args demo_request = Ret r' \<and> CHR ''?'' \<notin> set (bytes (path r')) \<and>
     ''/a?b=c'' = bytes (path r') @ ''?'' @ bytes (url_args r')"
  using parse_url_args_split [of demo_request]
  by (auto simp: demo_request_def readable_def bytes_def)

text \<open>C19: \<open>request_get_header\<close> finds the value of the first header whose name is exactly the one asked
  for, byte by byte (upper and lower case differ), and the empty string when there is none.\<close>

theorem request_get_header_first:
  assumes "headers_ok r" and "num_headers r = length (headers r)"
  shows "request_get_header r (Some n) = Ret
    (case find (\<lambda>h. slice (hname h) (hname_len h) (rq_buffer r) = cstr n) (headers r) of
       None \<Rightarrow> \<lparr>str_data = None, str_size = 0\<rparr>
     | Some h \<Rightarrow> \<lparr>str_data = Some (drop (hvalue h) (rq_buffer r)), str_size = of_nat (hvalue_len h)\<rparr>)"
proof -
  have "header_named r n = (\<lambda>h. slice (hname h) (hname_len h) (rq_buffer r) = cstr n)"
    by (simp add: header_named_def fun_eq_iff)
  with assms show ?thesis by (simp add: request_get_header_eq)
qed

lemma demo_parsed_headers_ok: "headers_ok demo_parsed"
  by (simp add: demo_parsed_def headers_ok_def demo_text_def header_in_def demo_header_def)

theorem request_get_header_first_witness:
  "request_get_header demo_parsed (Some ''H'')
     = Ret \<lparr>str_data = Some (drop 24 (rq_buffer demo_parsed)), str_size = 1\<rparr> \<and>
   request_get_header demo_parsed (Some ''h'') = Ret \<lparr>str_data = None, str_size = 0\<rparr>"
proof -
  have n: "num_headers demo_parsed = length (headers demo_parsed)" by (simp add: demo_parsed_def)
  show ?thesis
    using request_get_header_first [OF demo_parsed_headers_ok n, of "''H''"]
      request_get_header_first [OF demo_parsed_headers_ok n, of "''h''"]
    by (simp add: demo_parsed_def demo_header_def slice_def demo_text_def)
qed

text \<open>C34: a request for which the parser reports no header at all makes
  \<open>_parse_body\<close> read the header before the first: its index \<open>num_headers - 1\<close> wraps.\<close>

theorem request_without_headers_reads_out_of_bounds:
  assumes "phr_path p + phr_path_len p \<le> length (rq_buffer r)" and "length (rq_buffer r) = MAX_BUFFER"
    and "0 < phr_path_len p" and "\<not> has_dotdot (slice (phr_path p) (phr_path_len p) (rq_buffer r))"
    and "num_headers r = 0" and "length (headers r) = MAX_HEADERS"
  shows "request_accept p r = Undef Out_Of_Bounds"
proof -
  define r1 where "r1 = r\<lparr>rq_method := slice_string (rq_buffer r) (phr_method p) (phr_method_len p),
    path := slice_string (rq_buffer r) (phr_path p) (phr_path_len p)\<rparr>"
  have len: "phr_path_len p < 2 ^ 64" and rd: "readable (path r1)"
    using assms(1,2) by (auto simp: r1_def MAX_BUFFER_def intro!: slice_string_readable)
  then have b: "bytes (path r1) = slice (phr_path p) (phr_path_len p) (rq_buffer r)"
    by (simp add: r1_def bytes_slice_string)
  obtain r' where r': "parse_url_args r1 = Ret r'" "r' = r1\<lparr>url_args := url_args r', path := path r'\<rparr>"
    by (rule parse_url_args_frame [OF rd])
  then obtain u v where "r' = r1\<lparr>url_args := u, path := v\<rparr>" by blast
  then have "num_headers r' = 0" "length (headers r') < 2 ^ 64"
    using assms(5,6) by (simp_all add: r1_def MAX_HEADERS_def)
  then have "parse_body r' = Undef Out_Of_Bounds" by (rule parse_body_no_headers)
  with request_accept_eq [where req = r and p = p, folded r1_def] assms(3,4) len rd b r'(1) show ?thesis by (simp add: r1_def)
qed

theorem request_without_headers_reads_out_of_bounds_witness:
  "request_accept (demo_answer 24 []) (demo_parsed\<lparr>num_headers := 0, headers := replicate MAX_HEADERS demo_header\<rparr>)
     = Undef Out_Of_Bounds"
  by (rule request_without_headers_reads_out_of_bounds)
    (simp_all add: demo_answer_def demo_parsed_def demo_text_def MAX_BUFFER_def slice_def has_dotdot_def
      nth_Cons' less_Suc_eq)

text \<open>A request whose last header is followed by fewer than the four bytes the code skips (line feeds without carriage
  returns) has no body, but the size the code computes for it is nearly \<open>2 ^ 64\<close>.\<close>

theorem body_size_wraps:
  assumes "num_headers r = length (headers r)" and "headers r \<noteq> []" and "length (headers r) < 2 ^ 64"
    and "len_buffer r < body_offset r" and "body_offset r \<le> len_buffer r + 4" and "len_buffer r \<le> MAX_BUFFER"
  shows "\<exists>r'. parse_body r = Ret r' \<and> unat (str_size (body r')) + (body_offset r - len_buffer r) = 2 ^ 64"
proof -
  have "unat (of_nat (len_buffer r) :: size_t) = len_buffer r" "unat (of_nat (body_offset r) :: size_t) = body_offset r"
    using assms(5,6) by (intro unat_of_nat_small; simp add: MAX_BUFFER_def)+
  then have "unat (of_nat (len_buffer r) - of_nat (body_offset r) :: size_t) + (body_offset r - len_buffer r) = 2 ^ 64"
    using assms(4-6) by (simp add: unat_sub_if' MAX_BUFFER_def)
  then show ?thesis by (simp add: parse_body_last [OF assms(1-3)])
qed

theorem body_size_wraps_witness:
  "\<exists>r'. parse_body (demo_parsed\<lparr>len_buffer := 27, headers := [demo_header], num_headers := 1\<rparr>) = Ret r' \<and> unat (str_size (body r')) + 2 = 2 ^ 64"
  using body_size_wraps [of "demo_parsed\<lparr>len_buffer := 27, headers := [demo_header], num_headers := 1\<rparr>"]
  by (simp add: body_offset_def demo_header_def MAX_BUFFER_def)

text \<open>The documented behaviour of the parser when there are more headers than there is room for.\<close>

definition parser_needs_room :: "env \<Rightarrow> bool" where
  "parser_needs_room E \<longleftrightarrow> (\<forall>buf seen room.
     0 < phr_ret (phr_parse_request E buf seen MAX_HEADERS) \<and>
     room < phr_num_headers (phr_parse_request E buf seen MAX_HEADERS) \<longrightarrow>
       phr_ret (phr_parse_request E buf seen room) = -1)"

text \<open>C23: the loop of \<open>request_process\<close> does not set \<open>num_headers\<close> again before it calls the parser a second time:
  the room it offers is then the number of headers found in the first part. A request that arrives in two parts and has
  more headers than its first part is rejected, although it is complete and the parser would accept it.\<close>

theorem split_request_is_rejected:
  assumes "parser_needs_room E" and "length (rq_buffer req) = MAX_BUFFER"
    and "pending w fd = Bytes a # Bytes b # es" and "a \<noteq> []" and "b \<noteq> []" and "length a + length b \<le> MAX_BUFFER"
    and "first = phr_parse_request E a 0 MAX_HEADERS" and "phr_ret first = -2"
    and "whole = phr_parse_request E (a @ b) (length a) MAX_HEADERS" and "0 < phr_ret whole"
    and "phr_num_headers first < phr_num_headers whole"
  shows "\<exists>r l. request_process (Suc (Suc passes)) (Suc tries) req fd E w
      = Ret ((BAD_REQUEST, r), (set_pending fd es w)\<lparr>log_out := l\<rparr>) \<and> received r = a @ b"
proof -
  let ?r1 = "req\<lparr>len_buffer := 0, num_headers := MAX_HEADERS\<rparr>"
  let ?r2 = "req\<lparr>rq_buffer := overwrite (rq_buffer req) 0 a, old_len_buffer := 0, len_buffer := length a,
    minor_version := phr_minor_version first, headers := phr_headers first, num_headers := phr_num_headers first\<rparr>"
  let ?w1 = "set_pending fd (Bytes b # es) w"
  have la: "length a < MAX_BUFFER" "length a \<noteq> MAX_BUFFER" using assms(5,6) by (cases b; simp)+
  have fits: "length b \<le> MAX_BUFFER - length a" using assms(6) by simp
  have buf: "take (length a) (overwrite (rq_buffer req) 0 a) = a" "length (overwrite (rq_buffer req) 0 a) = MAX_BUFFER"
    using la assms(2) by (simp_all add: overwrite_def)
  have buf2: "take (length a + length b) (overwrite (overwrite (rq_buffer req) 0 a) (length a) b) = a @ b"
    using assms(6) buf by simp
  have rejected: "phr_ret (phr_parse_request E (a @ b) (length a) (phr_num_headers first)) = -1"
    using assms(1,9-11) unfolding parser_needs_room_def by simp
  have read1: "read_retry (Suc tries) fd (MAX_BUFFER - 0) E w = Ret (Got a, ?w1)"
    using assms(3) la by (simp add: bind_def sys_read_def return_def)
  have pass1: "request_pass ?r1 (Got a) E ?w1 = Ret ((None, ?r2), ?w1)"
    using assms(2,4,7,8) la buf
    by (simp add: request_pass_def bind_def lift_def asks_def mem_write_ok Let_def request_verdict_def return_def)
  have read2: "read_retry (Suc tries) fd (MAX_BUFFER - length a) E ?w1 = Ret (Got b, set_pending fd es w)"
    using fits la by (simp add: bind_def sys_read_def return_def set_pending_def)
  let ?w2 = "set_pending fd es w"
  let ?l = "logged LOG_ERR True ''error parsing request'' E ?w2"
  obtain r where pass2: "request_pass ?r2 (Got b) E ?w2 = Ret ((Some (Early BAD_REQUEST), r), ?w2\<lparr>log_out := ?l\<rparr>)"
    and r: "received r = a @ b"
    using assms(5,6) buf buf2 rejected
    by (simp add: request_pass_def bind_def lift_def asks_def mem_write_ok Let_def request_verdict_def return_def
      print_error_result received_def)
  have "request_process (Suc (Suc passes)) (Suc tries) req fd E w
      = Ret ((BAD_REQUEST, r), ?w2\<lparr>log_out := ?l\<rparr>)"
    using read1 pass1 read2 pass2
    by (simp add: request_process_def bind_def return_def del: read_retry.simps)
  with r show ?thesis by blast
qed

theorem split_request_is_rejected_witness:
  "\<exists>r w'. request_process 40 40 demo_request 7 demo_env
      (set_pending 7 [Bytes (take 21 demo_text), Bytes (drop 21 demo_text), Eof] demo_world) = Ret ((BAD_REQUEST, r), w') \<and>
     received r = demo_text"
proof -
  have room: "parser_needs_room demo_env"
    by (simp add: parser_needs_room_def demo_parse_def demo_answer_def)
  have "take 21 demo_text \<noteq> []" "drop 21 demo_text \<noteq> []" "length (take 21 demo_text) = 21" "length (drop 21 demo_text) = 8"
    by (simp_all add: demo_text_def)
  then show ?thesis
    using split_request_is_rejected [OF room demo_request_buffer, of "set_pending 7 [Bytes (take 21 demo_text), Bytes (drop 21 demo_text), Eof] demo_world" 7 "take 21 demo_text" "drop 21 demo_text" "[Eof]"
        "demo_answer (-2) []" "demo_answer 29 [demo_header]" 38 39]
    by (simp add: demo_parse_def demo_answer_def MAX_BUFFER_def MAX_HEADERS_def) blast
qed

end
