(* ===== verification/Config_Parser.thy ===== *)
theory Config_Parser
  imports Logging Cstring Demo
begin

text \<open>
  The configuration, src/config_parser.c. libconfuse is the environment's: it gives the value
  the file has for each option. A string it finds is a block that the program owns from then
  on; an integer is stored in a \<open>long\<close> of \<open>config_load\<close> that the code does not initialise, so
  that reading it for an option the file does not set is a read of an indeterminate value.
\<close>

section \<open>The code\<close>

text \<open>\<open>struct config\<close>; the strings with the blocks they live in.\<close>

record config =
  config_block :: nat
  signature_block :: "nat option"
  base_path_block :: "nat option"
  default_path_block :: "nat option"
  signature :: char_ptr
  base_path :: char_ptr
  default_path :: char_ptr
  max_connections :: int
  listen_port :: int
  log_priority :: int
  script_timeout :: int
  socket_timeout :: int

text \<open>The cast of a \<open>long\<close> to an \<open>int\<close> of 32 bits.\<close>

definition to_int :: "int \<Rightarrow> int" where
  "to_int l = sint (of_int l :: 32 word)"

text \<open>A string option: the library's own allocation does not fail here, for then the parse does.\<close>

definition cfg_string :: "cfg_result \<Rightarrow> string \<Rightarrow> (nat option \<times> char_ptr) prog" where
  "cfg_string r opt = (case cfg_str r opt of
     None \<Rightarrow> return (None, None)
   | Some s \<Rightarrow> (\<lambda>E w. Ret ((Some (n_malloc w), Some s),
       w\<lparr>n_malloc := Suc (n_malloc w), live := insert (n_malloc w) (live w)\<rparr>)))"

definition cfg_long :: "cfg_result \<Rightarrow> string \<Rightarrow> int outcome" where
  "cfg_long r opt = (case cfg_int r opt of None \<Rightarrow> Undef Uninit_Read | Some i \<Rightarrow> Ret i)"

text \<open>\<open>free\<close> accepts NULL.\<close>

definition free_opt :: "nat option \<Rightarrow> unit prog" where
  "free_opt p = (case p of None \<Rightarrow> return () | Some p \<Rightarrow> free p)"

text \<open>The chain of \<open>strcmp\<close> that reads the log priority; \<open>None\<close> when no name matches.\<close>

definition priority_of :: "char_ptr \<Rightarrow> int option outcome" where
  "priority_of s =
     obind (strcmp_eq s (Some ''INFO'')) (\<lambda>b. if b then Ret (Some LOG_INFO) else
     obind (strcmp_eq s (Some ''DEBUG'')) (\<lambda>b. if b then Ret (Some LOG_DEBUG) else
     obind (strcmp_eq s (Some ''WARNING'')) (\<lambda>b. if b then Ret (Some LOG_WARNING) else
     obind (strcmp_eq s (Some ''ERROR'')) (\<lambda>b. if b then Ret (Some LOG_ERR) else
     obind (strcmp_eq s (Some ''CRITICAL'')) (\<lambda>b. if b then Ret (Some LOG_CRIT) else
     Ret None)))))"

definition show_attributes :: "unit prog" where
  "show_attributes =
     bind (print_debug ''Server attributes:'') (\<lambda>_.
     bind (print_debug ''  signature: %s'') (\<lambda>_.
     bind (print_debug ''  base_path: %s'') (\<lambda>_.
     bind (print_debug ''  default_path: %s'') (\<lambda>_.
     bind (print_debug ''  log_priority: %s'') (\<lambda>_.
     bind (print_debug ''  max_connections: %d'') (\<lambda>_.
     bind (print_debug ''  listen_port: %d'') (\<lambda>_.
     bind (print_debug ''  script_timeout: %d'') (\<lambda>_.
     print_debug ''  socket_timeout: %d''))))))))"

text \<open>The part of \<open>config_load\<close> after a successful parse: the casts, the log priority, the log.\<close>

definition config_fill :: "cfg_result \<Rightarrow> config \<Rightarrow> nat option \<Rightarrow> char_ptr \<Rightarrow> config option prog" where
  "config_fill r server_attrs priority_block priority =
     bind (lift (cfg_long r ''max_connections'')) (\<lambda>max_conn.
     bind (lift (cfg_long r ''listen_port'')) (\<lambda>port.
     bind (lift (cfg_long r ''script_timeout'')) (\<lambda>s_timeout.
     bind (lift (cfg_long r ''socket_timeout'')) (\<lambda>timeout.
     bind (if timeout < 0
           then bind (print_info ''socket_timeout was < 0. Setting it to 0...'') (\<lambda>_. return 0)
           else return (to_int timeout)) (\<lambda>t.
     bind (lift (priority_of priority)) (\<lambda>p.
     bind (case p of
             Some p \<Rightarrow> return (p, priority_block)
           | None \<Rightarrow> bind (free_opt priority_block) (\<lambda>_.
                     bind (print_warning ''log priority unknown. Setting it to INFO...'') (\<lambda>_.
                     return (LOG_INFO, None)))) (\<lambda>(p, priority_block).
     bind show_attributes (\<lambda>_.
     bind (free_opt priority_block) (\<lambda>_.
     return (Some (server_attrs\<lparr>max_connections := to_int max_conn, listen_port := to_int port,
                     script_timeout := to_int s_timeout, socket_timeout := t,
                     log_priority := p\<rparr>)))))))))))"

definition config_load :: "string \<Rightarrow> config option prog" where
  "config_load config_file_name =
     bind malloc (\<lambda>server_attrs. case server_attrs of
       None \<Rightarrow> bind (print_error ''failed to allocate memory for server attributes'') (\<lambda>_. return None)
     | Some block \<Rightarrow>
         bind (asks (\<lambda>E. cfg_parse E config_file_name)) (\<lambda>r.
         if cfg_status r \<noteq> CFG_SUCCESS
         then bind (if cfg_status r = CFG_FILE_ERROR then print_error ''failed to read config file''
                    else if cfg_status r = CFG_PARSE_ERROR then print_error ''failed to parse config file''
                    else return ()) (\<lambda>_.
              bind (free block) (\<lambda>_.
              return None))
         else
           bind (cfg_string r ''signature'') (\<lambda>(sig_block, sig).
           bind (cfg_string r ''base_path'') (\<lambda>(base_block, base).
           bind (cfg_string r ''default_path'') (\<lambda>(default_block, def_path).
           bind (cfg_string r ''log_priority'') (\<lambda>(priority_block, priority).
           config_fill r \<lparr>config_block = block, signature_block = sig_block, base_path_block = base_block,
               default_path_block = default_block, signature = sig, base_path = base,
               default_path = def_path, max_connections = 0, listen_port = 0, log_priority = 0,
               script_timeout = 0, socket_timeout = 0\<rparr> priority_block priority))))))"

definition config_destroy :: "config \<Rightarrow> unit prog" where
  "config_destroy server_attrs =
     bind (free_opt (signature_block server_attrs)) (\<lambda>_.
     bind (free_opt (base_path_block server_attrs)) (\<lambda>_.
     bind (free_opt (default_path_block server_attrs)) (\<lambda>_.
     free (config_block server_attrs))))"

section \<open>Facts\<close>

lemma wp_cfg_string [wp_simps]:
  "wp (cfg_string r opt) Q E w = (case cfg_str r opt of
     None \<Rightarrow> Q (None, None) w
   | Some s \<Rightarrow> Q (Some (n_malloc w), Some s)
       (w\<lparr>n_malloc := Suc (n_malloc w), live := insert (n_malloc w) (live w)\<rparr>))"
  by (simp add: cfg_string_def wp_def return_def split: option.split)

lemma wp_free_opt [wp_simps]:
  "wp (free_opt p) Q E w = (case p of
     None \<Rightarrow> Q () w
   | Some p \<Rightarrow> p \<in> live w \<and> Q () (w\<lparr>live := live w - {p}\<rparr>))"
  by (simp add: free_opt_def wp_simps split: option.split)

lemma wp_show_attributes: "(\<And>l. Q () (w\<lparr>log_out := l\<rparr>)) \<Longrightarrow> wp show_attributes Q E w"
  by (simp add: show_attributes_def wp_print)

lemma priority_of_some:
  "\<exists>p. priority_of (Some s) = Ret p \<and> (p = None \<or> p \<in> Some ` {LOG_INFO, LOG_DEBUG, LOG_WARNING, LOG_ERR, LOG_CRIT})"
  by (simp add: priority_of_def strcmp_eq_def)

text \<open>What the parse leaves to be filled in, and the two ways of leaving out an option.\<close>

lemma cfg_string_Ret: "\<exists>p w'. cfg_string r opt E w = Ret ((p, cfg_str r opt), w')"
  by (cases "cfg_str r opt") (simp_all add: cfg_string_def return_def)

lemma config_load_fill:
  assumes "malloc_ok E (n_malloc w)" and "cfg_status (cfg_parse E f) = CFG_SUCCESS"
  shows "\<exists>c b w'. config_load f E w
    = config_fill (cfg_parse E f) c b (cfg_str (cfg_parse E f) ''log_priority'') E w'"
proof -
  let ?r = "cfg_parse E f" and ?w = "w\<lparr>n_malloc := Suc (n_malloc w), live := insert (n_malloc w) (live w)\<rparr>"
  obtain p1 w1 where 1: "cfg_string ?r ''signature'' E ?w = Ret ((p1, cfg_str ?r ''signature''), w1)"
    using cfg_string_Ret by blast
  obtain p2 w2 where 2: "cfg_string ?r ''base_path'' E w1 = Ret ((p2, cfg_str ?r ''base_path''), w2)"
    using cfg_string_Ret by blast
  obtain p3 w3 where 3: "cfg_string ?r ''default_path'' E w2 = Ret ((p3, cfg_str ?r ''default_path''), w3)"
    using cfg_string_Ret by blast
  obtain p4 w4 where 4: "cfg_string ?r ''log_priority'' E w3 = Ret ((p4, cfg_str ?r ''log_priority''), w4)"
    using cfg_string_Ret by blast
  show ?thesis
    using assms by (simp add: config_load_def bind_def malloc_def asks_def Let_def 1 2 3 4) blast
qed

lemma config_fill_missing_int:
  "opt \<in> {''max_connections'', ''listen_port'', ''script_timeout'', ''socket_timeout''} \<Longrightarrow> cfg_int r opt = None \<Longrightarrow>
   config_fill r c b p E w = Undef Uninit_Read"
  by (auto simp: config_fill_def bind_def lift_def cfg_long_def split: option.split)

lemma config_fill_no_priority:
  assumes "\<forall>opt. cfg_int r opt \<noteq> None"
  shows "config_fill r c b None E w = Undef Null_Deref"
proof -
  obtain m p st t where "cfg_int r ''max_connections'' = Some m" "cfg_int r ''listen_port'' = Some p"
    "cfg_int r ''script_timeout'' = Some st" "cfg_int r ''socket_timeout'' = Some t"
    using assms by (meson option.exhaust)
  then show ?thesis
    by (simp add: config_fill_def bind_def lift_def cfg_long_def priority_of_def strcmp_eq_def print_info_def
        print_priority_def return_def)
qed

section \<open>Properties\<close>

text \<open>A file that sets every option.\<close>

definition complete_file :: "cfg_result \<Rightarrow> bool" where
  "complete_file r \<longleftrightarrow> cfg_status r = CFG_SUCCESS \<and>
     cfg_str r ''signature'' \<noteq> None \<and> cfg_str r ''base_path'' \<noteq> None \<and>
     cfg_str r ''default_path'' \<noteq> None \<and> cfg_str r ''log_priority'' \<noteq> None \<and>
     cfg_int r ''max_connections'' \<noteq> None \<and> cfg_int r ''listen_port'' \<noteq> None \<and>
     cfg_int r ''script_timeout'' \<noteq> None \<and> cfg_int r ''socket_timeout'' \<noteq> None"

text \<open>The blocks of a configuration, and a loaded configuration: everything but the heap and the log is as before.\<close>

definition config_blocks :: "config \<Rightarrow> nat set" where
  "config_blocks c = insert (config_block c) (set_option (signature_block c) \<union> set_option (base_path_block c) \<union>
     set_option (default_path_block c))"

definition config_held :: "config \<Rightarrow> world \<Rightarrow> world \<Rightarrow> bool" where
  "config_held c w w' \<longleftrightarrow> live w' = live w \<union> config_blocks c \<and> live w \<inter> config_blocks c = {} \<and> heap_ok w' \<and> rest w' = rest w \<and>
     (\<exists>i j k. signature_block c = Some i \<and> base_path_block c = Some j \<and> default_path_block c = Some k \<and>
        distinct [config_block c, i, j, k])"

lemma wp_config_destroy:
  assumes "config_held c w0 w1" and "config_blocks c \<subseteq> live w" and "Q () (w\<lparr>live := live w - config_blocks c\<rparr>)"
  shows "wp (config_destroy c) Q E w"
proof -
  obtain i j k where b: "signature_block c = Some i" "base_path_block c = Some j" "default_path_block c = Some k"
    "distinct [config_block c, i, j, k]" using assms(1) by (auto simp: config_held_def)
  have "live w - {i} - {j} - {k} - {config_block c} = live w - config_blocks c"
    using b(1-3) by (auto simp: config_blocks_def)
  then show ?thesis using assms(2,3) b by (auto simp: config_destroy_def wp_simps config_blocks_def)
qed

lemma config_load_result:
  assumes "complete_file (cfg_parse E f)" and "malloc_ok E (n_malloc w)" and "heap_ok w"
  obtains c w' where "config_load f E w = Ret (Some c, w')" and "config_held c w w'"
    and "signature c = cfg_str (cfg_parse E f) ''signature''"
    and "base_path c = cfg_str (cfg_parse E f) ''base_path''"
    and "default_path c = cfg_str (cfg_parse E f) ''default_path''"
    and "Some (max_connections c) = map_option to_int (cfg_int (cfg_parse E f) ''max_connections'')"
    and "Some (listen_port c) = map_option to_int (cfg_int (cfg_parse E f) ''listen_port'')"
    and "Some (script_timeout c) = map_option to_int (cfg_int (cfg_parse E f) ''script_timeout'')"
    and "Some (socket_timeout c) = map_option (\<lambda>t. if t < 0 then 0 else to_int t) (cfg_int (cfg_parse E f) ''socket_timeout'')"
    and "log_priority c \<in> {LOG_CRIT, LOG_ERR, LOG_WARNING, LOG_INFO, LOG_DEBUG}"
proof -
  let ?r = "cfg_parse E f" and ?n = "n_malloc w"
  obtain sig base def_path prio where strs: "cfg_str ?r ''signature'' = Some sig" "cfg_str ?r ''base_path'' = Some base"
    "cfg_str ?r ''default_path'' = Some def_path" "cfg_str ?r ''log_priority'' = Some prio"
    using assms(1) by (auto simp: complete_file_def)
  obtain m p st t where ints: "cfg_int ?r ''max_connections'' = Some m" "cfg_int ?r ''listen_port'' = Some p"
    "cfg_int ?r ''script_timeout'' = Some st" "cfg_int ?r ''socket_timeout'' = Some t"
    using assms(1) by (auto simp: complete_file_def)
  obtain q where q: "priority_of (Some prio) = Ret q"
    "q = None \<or> q \<in> Some ` {LOG_INFO, LOG_DEBUG, LOG_WARNING, LOG_ERR, LOG_CRIT}"
    using priority_of_some by blast
  have fresh: "?n \<notin> live w" "Suc ?n \<notin> live w" "Suc (Suc ?n) \<notin> live w" "Suc (Suc (Suc ?n)) \<notin> live w"
    "Suc (Suc (Suc (Suc ?n))) \<notin> live w"
    using assms(3) by (auto simp: heap_ok_def)
  let ?c = "\<lparr>config_block = ?n, signature_block = Some (Suc ?n), base_path_block = Some (Suc (Suc ?n)),
     default_path_block = Some (Suc (Suc (Suc ?n))), signature = Some sig, base_path = Some base,
     default_path = Some def_path, max_connections = to_int m, listen_port = to_int p,
     log_priority = (case q of None \<Rightarrow> LOG_INFO | Some l \<Rightarrow> l), script_timeout = to_int st,
     socket_timeout = (if t < 0 then 0 else to_int t)\<rparr>"
  have "wp (config_load f) (\<lambda>c w'. c = Some ?c \<and> n_malloc w' = Suc (Suc (Suc (Suc (Suc ?n)))) \<and> rest w' = rest w \<and> live w' =
      insert (Suc (Suc (Suc ?n))) (insert (Suc (Suc ?n)) (insert (Suc ?n) (insert ?n (live w))))) E w"
    using assms(1,2) fresh q(1)
    by (auto simp: config_load_def config_fill_def wp_simps strs ints cfg_long_def complete_file_def
        split: option.splits intro!: wp_show_attributes)
  then obtain w' where load: "config_load f E w = Ret (Some ?c, w')" and held: "n_malloc w' = Suc (Suc (Suc (Suc (Suc ?n))))" "rest w' = rest w"
    "live w' = insert (Suc (Suc (Suc ?n))) (insert (Suc (Suc ?n)) (insert (Suc ?n) (insert ?n (live w))))"
    by (elim wpE) auto
  have "\<forall>p \<in> live w. p < Suc (Suc (Suc (Suc (Suc ?n))))"
    using assms(3) unfolding heap_ok_def by (metis less_SucI)
  then have "heap_ok w'" using held(1,3) by (simp add: heap_ok_def)
  then have c: "config_held ?c w w'" using held fresh by (auto simp: config_held_def config_blocks_def)
  have prio: "log_priority ?c \<in> {LOG_CRIT, LOG_ERR, LOG_WARNING, LOG_INFO, LOG_DEBUG}" using q(2) by auto
  show thesis by (rule that [OF load c _ _ _ _ _ _ _ prio]) (simp_all add: strs ints)
qed



text \<open>C39: a file without \<open>log_priority\<close> makes \<open>config_load\<close> compare with a null pointer, and a file without
  one of the numbers makes it use a variable that nothing was stored in.\<close>

theorem config_load_missing_option:
  assumes "malloc_ok E (n_malloc w)" and "cfg_status (cfg_parse E f) = CFG_SUCCESS"
    and "opt \<in> {''max_connections'', ''listen_port'', ''script_timeout'', ''socket_timeout''}"
  shows "(cfg_int (cfg_parse E f) opt = None \<longrightarrow> config_load f E w = Undef Uninit_Read) \<and>
    ((\<forall>o'. cfg_int (cfg_parse E f) o' \<noteq> None) \<and> cfg_str (cfg_parse E f) ''log_priority'' = None \<longrightarrow>
       config_load f E w = Undef Null_Deref)"
  using config_load_fill [OF assms(1,2)] config_fill_missing_int [OF assms(3)] config_fill_no_priority
  by fastforce

theorem config_load_missing_option_witness:
  "config_load ''f'' (demo_env\<lparr>cfg_parse := (\<lambda>f. \<lparr>cfg_status = CFG_SUCCESS, cfg_str = (\<lambda>o'. None),
     cfg_int = (\<lambda>o'. Some 8)\<rparr>)\<rparr>) demo_world = Undef Null_Deref"
  by (rule config_load_missing_option [where opt = "''listen_port''", THEN conjunct2, THEN mp]) simp_all

end
