(* ===== verification/Http_Date.thy ===== *)
theory Http_Date
  imports Cstring
begin

text \<open>
  The part of <time.h> that src/response.c uses: \<open>gmtime\<close>, and \<open>strftime\<close> for the format of
  the dates in its headers, \<open>%a, %d %b %Y %H:%M:%S %Z\<close>. A time is the number of seconds since
  1970. The theory shows the two bounds on the length of a date on which the fixed arrays of
  response.c depend.
\<close>

section \<open>Broken-down time\<close>

record tm =
  tm_sec :: nat
  tm_min :: nat
  tm_hour :: nat
  tm_mday :: nat
  tm_mon :: nat         \<comment> \<open>0 is January\<close>
  tm_year :: int        \<comment> \<open>the year itself, not the years since 1900\<close>
  tm_wday :: nat        \<comment> \<open>0 is Sunday\<close>

text \<open>The civil date of a day, counted from 1970-01-01, in the Gregorian calendar: the year
  starts in March, in eras of 400 years.\<close>

definition civil_of_days :: "int \<Rightarrow> int \<times> nat \<times> nat" where
  "civil_of_days days =
     (let z = days + 719468;
          era = z div 146097;
          doe = z mod 146097;
          yoe = (doe - doe div 1460 + doe div 36524 - doe div 146096) div 365;
          doy = doe - (365 * yoe + yoe div 4 - yoe div 100);
          mp = (5 * doy + 2) div 153;
          d = doy - (153 * mp + 2) div 5 + 1;
          m = (if mp < 10 then mp + 3 else mp - 9)
      in (yoe + era * 400 + (if m \<le> 2 then 1 else 0), nat (m - 1), nat d))"

text \<open>\<open>gmtime\<close> fails when the years since 1900 do not fit an \<open>int\<close>.\<close>

definition gmtime :: "int \<Rightarrow> tm option" where
  "gmtime t =
     (let days = t div 86400; s = t mod 86400; (y, m, d) = civil_of_days days in
      if y - 1900 < - (2 ^ 31) \<or> 2 ^ 31 \<le> y - 1900 then None
      else Some \<lparr>tm_sec = nat (s mod 60), tm_min = nat (s div 60 mod 60), tm_hour = nat (s div 3600),
                 tm_mday = d, tm_mon = m, tm_year = y, tm_wday = nat ((days + 4) mod 7)\<rparr>)"

section \<open>Formatting\<close>

definition two_digits :: "nat \<Rightarrow> string" where
  "two_digits n = [digit (n div 10 mod 10), digit (n mod 10)]"

definition day_name :: "nat \<Rightarrow> string" where
  "day_name d = [''Sun'', ''Mon'', ''Tue'', ''Wed'', ''Thu'', ''Fri'', ''Sat''] ! (d mod 7)"

definition month_name :: "nat \<Rightarrow> string" where
  "month_name m = [''Jan'', ''Feb'', ''Mar'', ''Apr'', ''May'', ''Jun'', ''Jul'', ''Aug'', ''Sep'',
     ''Oct'', ''Nov'', ''Dec''] ! (m mod 12)"

text \<open>The text of the format \<open>%a, %d %b %Y %H:%M:%S %Z\<close>.\<close>

definition http_date :: "tm \<Rightarrow> string" where
  "http_date t = day_name (tm_wday t) @ '', '' @ two_digits (tm_mday t) @ '' '' @ month_name (tm_mon t) @ '' '' @
     dec_int (tm_year t) @ '' '' @ two_digits (tm_hour t) @ '':'' @ two_digits (tm_min t) @ '':'' @
     two_digits (tm_sec t) @ '' GMT''"

text \<open>What an array of \<open>n\<close> bytes holds after \<open>strftime\<close>: the text and its terminator when both fit,
  and otherwise whatever: the bytes the environment says the memory holds.\<close>

definition strftime_array :: "nat \<Rightarrow> string \<Rightarrow> env \<Rightarrow> string" where
  "strftime_array n s E = (if length s < n then s @ NUL # fresh_bytes E (length s + 1) (n - length s - 1)
     else fresh_bytes E 0 n)"

text \<open>Using an array as a C string reads to its first NUL, which has to be there.\<close>

definition array_string :: "string \<Rightarrow> char_ptr outcome" where
  "array_string a = (if NUL \<in> set a then Ret (Some a) else Undef Out_Of_Bounds)"

section \<open>The length of a date\<close>

lemma nth_mod_all: "list_all P xs \<Longrightarrow> xs \<noteq> [] \<Longrightarrow> length xs = k \<Longrightarrow> P (xs ! (m mod k))"
  by (auto simp: list_all_length)

lemma length_day_name [simp]: "length (day_name d) = 3"
  unfolding day_name_def by (rule nth_mod_all [where P = "\<lambda>s. length s = 3"]) simp_all

lemma length_month_name [simp]: "length (month_name m) = 3"
  unfolding month_name_def by (rule nth_mod_all [where P = "\<lambda>s. length s = 3"]) simp_all

lemma no_nul_day_name [simp]: "no_nul (day_name d)"
  unfolding day_name_def by (rule nth_mod_all [where P = no_nul]) simp_all

lemma no_nul_month_name [simp]: "no_nul (month_name m)"
  unfolding month_name_def by (rule nth_mod_all [where P = no_nul]) simp_all

lemma length_two_digits [simp]: "length (two_digits n) = 2"
  by (simp add: two_digits_def)

lemma no_nul_two_digits [simp]: "no_nul (two_digits n)"
  by (simp add: two_digits_def digit_not_NUL)

lemma no_nul_dec_int [simp]: "no_nul (dec_int i)"
  by (simp add: dec_int_def)

lemma dec_int_nonempty [simp]: "dec_int i \<noteq> []"
  by (simp add: dec_int_def)

lemma length_http_date: "length (http_date t) = 25 + length (dec_int (tm_year t))"
  by (simp add: http_date_def)

lemma no_nul_http_date [simp]: "no_nul (http_date t)"
  by (simp add: http_date_def)

lemma length_dec_int_int: "- (2 ^ 31) - 1 \<le> i - 1900 \<Longrightarrow> i - 1900 < 2 ^ 31 \<Longrightarrow> length (dec_int i) \<le> 11"
proof -
  assume "- (2 ^ 31) - 1 \<le> i - 1900" and "i - 1900 < 2 ^ 31"
  then have "nat i < 10 ^ 10" "nat (- i) < 10 ^ 10" by (simp_all add: nat_less_iff)
  then have "length (dec (nat i)) \<le> 10" "length (dec (nat (- i))) \<le> 10"
    by (auto intro!: length_dec_le)
  then show ?thesis by (simp add: dec_int_def)
qed

lemma gmtime_year: "gmtime t = Some b \<Longrightarrow> - (2 ^ 31) \<le> tm_year b - 1900 \<and> tm_year b - 1900 < 2 ^ 31"
  by (auto simp: gmtime_def Let_def split_beta' split: if_splits)

text \<open>A date of \<open>gmtime\<close> has at least 26 and at most 36 characters.\<close>

lemma length_gmtime_date:
  assumes "gmtime t = Some b"
  shows "26 \<le> length (http_date b)" and "length (http_date b) \<le> 36"
proof -
  have "length (dec_int (tm_year b)) \<le> 11"
    using gmtime_year [OF assms] by (intro length_dec_int_int) auto
  then show "length (http_date b) \<le> 36" by (simp add: length_http_date)
  have "0 < length (dec_int (tm_year b))" by simp
  then show "26 \<le> length (http_date b)" by (simp add: length_http_date del: length_greater_0_conv)
qed

lemma strftime_array_fits:
  "no_nul s \<Longrightarrow> length s < n \<Longrightarrow> array_string (strftime_array n s E) = Ret (Some (strftime_array n s E)) \<and>
     cstr (strftime_array n s E) = s"
  by (simp add: strftime_array_def array_string_def cstr_append_no_nul)

end
