(* ===== verification/Response.thy ===== *)
theory Response
  imports Execute_Scripts Request Config_Parser Http_Date
begin

text \<open>
  Building and sending responses, src/response.c: the error pages, the name of a file from
  the path and the configuration, the type from the extension, scripts, files, and the
  answer to OPTIONS. Every function is a program that sends on the client's descriptor and
  returns a code of utils.h. The branch for macOS is not modelled.
\<close>

section \<open>Headers and error pages\<close>

definition DATE_SIZE :: nat where "DATE_SIZE = 40"
definition ETAG_SIZE :: nat where "ETAG_SIZE = 100"

abbreviation append_all :: "DynamicBuffer option \<Rightarrow> piece list \<Rightarrow> DynamicBuffer option prog" where
  "append_all \<equiv> append_pieces dynamic_buffer_append_string dynamic_buffer_append_number"

text \<open>\<open>*gmtime(t)\<close>\<close>

definition deref_gmtime :: "int \<Rightarrow> tm outcome" where
  "deref_gmtime t = (case gmtime t of None \<Rightarrow> Undef Null_Deref | Some tm \<Rightarrow> Ret tm)"

definition add_common_headers ::
    "DynamicBuffer option \<Rightarrow> config \<Rightarrow> int \<Rightarrow> string \<Rightarrow> DynamicBuffer option prog" where
  "add_common_headers db server_attrs status_code message =
     bind sys_time (\<lambda>now.
     bind (lift (deref_gmtime now)) (\<lambda>tm.
     bind (asks (strftime_array DATE_SIZE (http_date tm))) (\<lambda>current_date.
     bind (lift (array_string current_date)) (\<lambda>current_date.
     append_all db
       [Text (Some ''HTTP/1.1 ''), Number (of_int status_code), Text (Some '' ''), Text (Some message),
        Text (Some (CRLF @ ''Date: '')), Text current_date,
        Text (Some (CRLF @ ''Server: '')), Text (signature server_attrs), Text (Some CRLF)]))))"

definition body_1 :: string where "body_1 = ''<!DOCTYPE html><h1>''"
definition body_2 :: string where "body_2 = ''</h1>''"

definition error_headers :: "DynamicBuffer option \<Rightarrow> config \<Rightarrow> int \<Rightarrow> string \<Rightarrow> DynamicBuffer option prog" where
  "error_headers db server_attrs status_code message =
     bind (add_common_headers db server_attrs status_code message) (\<lambda>db.
     append_all db
       [Text (Some (''Content-Type: text/html; charset=UTF-8'' @ CRLF @ ''Content-Length: '')),
        Number (of_nat (length body_1 + length (cstr message) + length body_2)),
        Text (Some (CRLF @ ''Connection: close'' @ CRLF @ CRLF)),
        Text (Some body_1), Text (Some message), Text (Some body_2)])"

text \<open>\<open>_response_error\<close>: when the page cannot be sent it tries to send another one, through
  \<open>response_internal_server_error\<close>, which is itself again. The first argument bounds these calls.\<close>

fun response_error :: "nat \<Rightarrow> int \<Rightarrow> config \<Rightarrow> int \<Rightarrow> string \<Rightarrow> int prog" where
  "response_error 0 client_fd server_attrs status_code message = unfinished"
| "response_error (Suc calls) client_fd server_attrs status_code message =
     bind (dynamic_buffer_ini DEFAULT_INITIAL_CAPACITY) (\<lambda>db. case db of
       None \<Rightarrow> bind (print_error ''failed to allocate memory for dynamic buffer'') (\<lambda>_. return ERROR)
     | Some db \<Rightarrow>
         bind (error_headers (Some db) server_attrs status_code message) (\<lambda>db.
         bind (socket_send client_fd (dynamic_buffer_get_buffer db) (dynamic_buffer_get_size db)) (\<lambda>sent.
         if sent < 0
         then bind (print_error ''failed to send'') (\<lambda>_.
              bind (dynamic_buffer_destroy db) (\<lambda>_.
              bind (response_error calls client_fd server_attrs 500 ''Internal Server Error'') (\<lambda>_.
              return ERROR)))
         else return OK)))"

definition response_bad_request :: "nat \<Rightarrow> int \<Rightarrow> config \<Rightarrow> int prog" where
  "response_bad_request calls client_fd server_attrs =
     response_error calls client_fd server_attrs 400 ''Bad Request''"

definition response_request_too_long :: "nat \<Rightarrow> int \<Rightarrow> config \<Rightarrow> int prog" where
  "response_request_too_long calls client_fd server_attrs =
     response_error calls client_fd server_attrs 400 ''Bad Request - Request Too Long''"

definition response_not_found :: "nat \<Rightarrow> int \<Rightarrow> config \<Rightarrow> int prog" where
  "response_not_found calls client_fd server_attrs =
     response_error calls client_fd server_attrs 404 ''Not Found''"

definition response_not_implemented :: "nat \<Rightarrow> int \<Rightarrow> config \<Rightarrow> int prog" where
  "response_not_implemented calls client_fd server_attrs =
     response_error calls client_fd server_attrs 501 ''Not Implemented''"

definition response_internal_server_error :: "nat \<Rightarrow> int \<Rightarrow> config \<Rightarrow> int prog" where
  "response_internal_server_error calls client_fd server_attrs =
     response_error calls client_fd server_attrs 500 ''Internal Server Error''"

section \<open>Files\<close>

text \<open>\<open>_get_filename\<close>: the block and the bytes of the name.\<close>

definition get_filename :: "sized_string \<Rightarrow> config \<Rightarrow> (nat \<times> string) option prog" where
  "get_filename file_path server_attrs =
     bind (lift (string_is_equal_to file_path (Some ''/''))) (\<lambda>is_root.
     bind (if is_root
           then bind (lift (strlen (default_path server_attrs))) (\<lambda>n.
                return \<lparr>str_data = default_path server_attrs, str_size = of_nat n\<rparr>)
           else return file_path) (\<lambda>file_path.
     bind (lift (strlen (base_path server_attrs))) (\<lambda>base_path_length.
     bind malloc (\<lambda>filename. case filename of
       None \<Rightarrow> bind (print_error ''failed to allocate memory for filename'') (\<lambda>_. return None)
     | Some filename \<Rightarrow>
         bind (lift (strncpy (base_path server_attrs) base_path_length)) (\<lambda>base.
         bind (lift (strncpy (str_data file_path) (unat (str_size file_path)))) (\<lambda>rest.
         return (Some (filename, base @ rest @ [NUL]))))))))"

text \<open>\<open>_find_extension\<close>: the cursor runs to the terminator and the last dot it met is kept.\<close>

fun find_extension_loop :: "string \<Rightarrow> char_ptr \<Rightarrow> char_ptr" where
  "find_extension_loop [] extension = extension"
| "find_extension_loop (c # cursor) extension =
     (if c = NUL then extension
      else find_extension_loop cursor (if c = CHR ''.'' then Some (c # cursor) else extension))"

definition find_extension :: "string \<Rightarrow> char_ptr" where
  "find_extension filename = find_extension_loop filename None"

text \<open>\<open>_get_content_type\<close>, the chain of \<open>MATCH\<close>.\<close>

definition content_types :: "(string \<times> string) list" where
  "content_types =
     [(''.txt'', ''text/plain''),
      (''.html'', ''text/html''),
      (''.htm'', ''text/html''),
      (''.gif'', ''image/gif''),
      (''.jpeg'', ''image/jpeg''),
      (''.png'', ''image/png''),
      (''.jpg'', ''image/jpeg''),
      (''.mpeg'', ''video/mpeg''),
      (''.mpg'', ''video/mpeg''),
      (''.mp4'', ''video/mp4''),
      (''.doc'', ''application/msword''),
      (''.docx'', ''application/msword''),
      (''.pdf'', ''application/pdf'')]"

fun match_type :: "(string \<times> string) list \<Rightarrow> char_ptr \<Rightarrow> char_ptr outcome" where
  "match_type [] extension = Ret None"
| "match_type ((actual_extension, type) # types) extension =
     obind (strcmp_eq extension (Some actual_extension)) (\<lambda>b.
       if b then Ret (Some type) else match_type types extension)"

definition get_content_type :: "char_ptr \<Rightarrow> char_ptr outcome" where
  "get_content_type extension = match_type content_types extension"

definition get_file_size :: "string \<Rightarrow> size_t prog" where
  "get_file_size filename =
     bind (sys_stat (cstr filename)) (\<lambda>st. case st of
       None \<Rightarrow> bind (print_error ''couldn't provide %s: %s'') (\<lambda>_. return (-1))
     | Some (st_size, st_mtime) \<Rightarrow> return (of_int st_size))"

definition get_file_last_modified :: "string \<Rightarrow> int prog" where
  "get_file_last_modified filename =
     bind (sys_stat (cstr filename)) (\<lambda>st. case st of
       None \<Rightarrow> bind (print_error ''couldn't provide %s: %s'') (\<lambda>_. return (-1))
     | Some (st_size, st_mtime) \<Rightarrow> return st_mtime)"

section \<open>Scripts\<close>

text \<open>\<open>_response_cgi\<close>. From here on one number, \<open>fuel\<close>, bounds each of the loops below a function: the
  error pages, the reading of a script's output, and the chunks of a file.\<close>

definition cgi_send ::
    "nat \<Rightarrow> int \<Rightarrow> config \<Rightarrow> DynamicBuffer option \<Rightarrow> DynamicBuffer option \<Rightarrow> int prog" where
  "cgi_send fuel client_fd server_attrs response script_output =
     bind (add_common_headers response server_attrs 200 ''OK'') (\<lambda>response.
     bind (append_all response
       [Text (Some (''Content-Type: text/plain; charset=UTF-8'' @ CRLF @ ''Content-Length: '')),
        Number (dynamic_buffer_get_size script_output),
        Text (Some (CRLF @ ''Connection: keep-alive'' @ CRLF @ CRLF))]) (\<lambda>response.
     bind (dynamic_buffer_append response (dynamic_buffer_get_buffer script_output)
             (dynamic_buffer_get_size script_output)) (\<lambda>(_, response).
     bind (socket_send client_fd (dynamic_buffer_get_buffer response) (dynamic_buffer_get_size response)) (\<lambda>sent.
     if sent < 0
     then bind (response_internal_server_error fuel client_fd server_attrs) (\<lambda>_.
          bind (dynamic_buffer_destroy response) (\<lambda>_.
          bind (dynamic_buffer_destroy script_output) (\<lambda>_.
          return ERROR)))
     else bind (dynamic_buffer_destroy response) (\<lambda>_.
          bind (dynamic_buffer_destroy script_output) (\<lambda>_.
          return OK))))))"

definition response_cgi ::
    "nat \<Rightarrow> int \<Rightarrow> config \<Rightarrow> sized_string \<Rightarrow> string \<Rightarrow> char_ptr \<Rightarrow> int prog" where
  "response_cgi fuel client_fd server_attrs args filename extension =
     bind (dynamic_buffer_ini DEFAULT_INITIAL_CAPACITY) (\<lambda>response. case response of
       None \<Rightarrow>
         bind (print_error ''failed to allocate memory for dynamic buffer'') (\<lambda>_.
         bind (response_internal_server_error fuel client_fd server_attrs) (\<lambda>_.
         return ERROR))
     | Some response \<Rightarrow>
         bind (asks (\<lambda>E. access_ok E (cstr filename))) (\<lambda>exists.
         if \<not> exists
         then bind (response_not_found fuel client_fd server_attrs) (\<lambda>_.
              bind (dynamic_buffer_destroy (Some response)) (\<lambda>_.
              return NOT_FOUND))
         else
           bind (lift (strcmp_eq extension (Some ''.py''))) (\<lambda>py.
           bind (if py then return False else lift (strcmp_eq extension (Some ''.php''))) (\<lambda>php.
           if \<not> py \<and> \<not> php
           then bind (response_not_implemented fuel client_fd server_attrs) (\<lambda>_.
                bind (dynamic_buffer_destroy (Some response)) (\<lambda>_.
                return BAD_REQUEST))
           else
             bind (if py then execute_python_script fuel (cstr filename) args (script_timeout server_attrs)
                   else execute_php_script fuel (cstr filename) args (script_timeout server_attrs)) (\<lambda>script_output.
             case script_output of
               None \<Rightarrow> bind (response_internal_server_error fuel client_fd server_attrs) (\<lambda>_.
                       bind (dynamic_buffer_destroy (Some response)) (\<lambda>_.
                       return ERROR))
             | Some script_output \<Rightarrow>
                 cgi_send fuel client_fd server_attrs (Some response) (Some script_output))))))"

text \<open>The same function when it is compiled for macOS, where it returns before it looks at the file.\<close>

definition response_cgi_macos ::
    "nat \<Rightarrow> int \<Rightarrow> config \<Rightarrow> sized_string \<Rightarrow> string \<Rightarrow> char_ptr \<Rightarrow> int prog" where
  "response_cgi_macos fuel client_fd server_attrs args filename extension =
     bind (dynamic_buffer_ini DEFAULT_INITIAL_CAPACITY) (\<lambda>response. case response of
       None \<Rightarrow>
         bind (print_error ''failed to allocate memory for dynamic buffer'') (\<lambda>_.
         bind (response_internal_server_error fuel client_fd server_attrs) (\<lambda>_.
         return ERROR))
     | Some response \<Rightarrow>
         bind (add_common_headers (Some response) server_attrs 501 ''Not Implemented'') (\<lambda>response.
         bind (append_all response
           [Text (Some (''Content-Type: text/html; charset=UTF-8'' @ CRLF)),
            Text (Some (''Content-Length: 41'' @ CRLF)),
            Text (Some (''Connection: keep-alive'' @ CRLF @ CRLF)),
            Text (Some ''<h1>Scripts not implemented on macOS</h1>'')]) (\<lambda>response.
         bind (socket_send client_fd (dynamic_buffer_get_buffer response) (dynamic_buffer_get_size response)) (\<lambda>_.
         return OK))))"

section \<open>Requests\<close>

text \<open>The loop of \<open>response_get\<close> that sends a file: the buffer is filled with what it has room for, and
  sent and emptied whenever it is full. The first argument bounds the chunks.\<close>

fun send_file_loop :: "nat \<Rightarrow> int \<Rightarrow> DynamicBuffer option \<Rightarrow> FILE option \<Rightarrow> size_t \<Rightarrow> DynamicBuffer option prog" where
  "send_file_loop 0 client_fd db f file_size = (if file_size > 0 then unfinished else return db)"
| "send_file_loop (Suc chunks) client_fd db f file_size =
     (if file_size > 0
      then bind (dynamic_buffer_append_file_chunked db f) (\<lambda>(bytes_read, db, f).
           if dynamic_buffer_is_full db
           then bind (socket_send client_fd (dynamic_buffer_get_buffer db) (dynamic_buffer_get_size db)) (\<lambda>_.
                send_file_loop chunks client_fd (dynamic_buffer_clear db) f (file_size - bytes_read))
           else send_file_loop chunks client_fd db f (file_size - bytes_read))
      else return db)"

text \<open>The entity tag, \<open>"%ld%.*s"\<close> in an array of \<open>ETAG_SIZE\<close> bytes: the time of the last change and the path.\<close>

definition make_etag :: "int \<Rightarrow> sized_string \<Rightarrow> string outcome" where
  "make_etag last_modified file_path =
     obind (deref (str_data file_path)) (\<lambda>s.
     Ret (snprintf_bytes ETAG_SIZE (dec_int last_modified @ take (unat (str_size file_path)) (cstr s))))"

definition not_modified :: "DynamicBuffer option \<Rightarrow> config \<Rightarrow> DynamicBuffer option prog" where
  "not_modified db server_attrs =
     bind (add_common_headers db server_attrs 304 ''Not Modified'') (\<lambda>db.
     append_all db [Text (Some (CRLF @ ''Connection: keep-alive'' @ CRLF @ CRLF))])"

definition file_headers ::
    "DynamicBuffer option \<Rightarrow> config \<Rightarrow> char_ptr \<Rightarrow> string \<Rightarrow> size_t \<Rightarrow> string \<Rightarrow> DynamicBuffer option prog" where
  "file_headers db server_attrs content_type etag file_size c_last_modified =
     bind (add_common_headers db server_attrs 200 ''OK'') (\<lambda>db.
     bind (append_all db
       [Text (Some ''Content-Type: ''), Text content_type, Text (Some (''; charset=UTF-8'' @ CRLF)),
        Text (Some ''ETag: ''), Text (Some etag),
        Text (Some (CRLF @ ''Content-Length: '')), Number file_size, Text (Some CRLF)]) (\<lambda>db.
     bind (lift (array_string c_last_modified)) (\<lambda>last_modified.
     append_all db [Text last_modified, Text (Some (''Connection: keep-alive'' @ CRLF @ CRLF))])))"

text \<open>The part of \<open>response_get\<close> from the opened file on.\<close>

definition get_opened ::
    "nat \<Rightarrow> int \<Rightarrow> config \<Rightarrow> request \<Rightarrow> nat \<Rightarrow> string \<Rightarrow> char_ptr \<Rightarrow> DynamicBuffer option \<Rightarrow> FILE \<Rightarrow> int prog" where
  "get_opened fuel client_fd server_attrs request filename_block filename content_type db f =
     bind (get_file_size filename) (\<lambda>file_size.
     bind (get_file_last_modified filename) (\<lambda>last_modified.
     bind (lift (deref_gmtime last_modified)) (\<lambda>tm.
     bind (asks (strftime_array DATE_SIZE (''Last modified: '' @ http_date tm @ CRLF))) (\<lambda>c_last_modified.
     bind (lift (request_get_header request (Some ''If-None-Match''))) (\<lambda>header.
     bind (lift (make_etag last_modified (path request))) (\<lambda>etag.
     bind (lift (string_is_equal_to header (Some etag))) (\<lambda>same.
     bind (if same then not_modified db server_attrs
           else bind (file_headers db server_attrs content_type etag file_size c_last_modified) (\<lambda>db.
                send_file_loop fuel client_fd db (Some f) file_size)) (\<lambda>db.
     bind (if \<not> dynamic_buffer_is_empty db
           then bind (socket_send client_fd (dynamic_buffer_get_buffer db) (dynamic_buffer_get_size db)) (\<lambda>_. return ())
           else return ()) (\<lambda>_.
     bind (dynamic_buffer_destroy db) (\<lambda>_.
     bind (free filename_block) (\<lambda>_.
     return OK)))))))))))"

text \<open>The part of \<open>response_get\<close> for a file that is not a script.\<close>

definition get_file :: "nat \<Rightarrow> int \<Rightarrow> config \<Rightarrow> request \<Rightarrow> nat \<Rightarrow> string \<Rightarrow> char_ptr \<Rightarrow> int prog" where
  "get_file fuel client_fd server_attrs request filename_block filename extension =
     bind (dynamic_buffer_ini DEFAULT_INITIAL_CAPACITY) (\<lambda>db. case db of
       None \<Rightarrow>
         bind (print_error ''failed to allocate memory for dynamic buffer'') (\<lambda>_.
         bind (response_internal_server_error fuel client_fd server_attrs) (\<lambda>_.
         bind (free filename_block) (\<lambda>_.
         return ERROR)))
     | Some db \<Rightarrow>
         bind (lift (get_content_type extension)) (\<lambda>content_type.
         if content_type = None
         then bind (print_error ''unrecognized content type for %s'') (\<lambda>_.
              bind (response_not_found fuel client_fd server_attrs) (\<lambda>_.
              bind (free filename_block) (\<lambda>_.
              bind (dynamic_buffer_destroy (Some db)) (\<lambda>_.
              return ERROR))))
         else
           bind (print_debug ''%s requested (type %s)'') (\<lambda>_.
           bind (asks (\<lambda>E. file_at E (cstr filename))) (\<lambda>f. case f of
             None \<Rightarrow>
               bind (print_error ''can't open %s: %s'') (\<lambda>_.
               bind (response_not_found fuel client_fd server_attrs) (\<lambda>_.
               bind (free filename_block) (\<lambda>_.
               bind (dynamic_buffer_destroy (Some db)) (\<lambda>_.
               return ERROR))))
           | Some f \<Rightarrow>
               get_opened fuel client_fd server_attrs request filename_block filename content_type (Some db) f))))"

definition response_get :: "nat \<Rightarrow> int \<Rightarrow> config \<Rightarrow> request \<Rightarrow> int prog" where
  "response_get fuel client_fd server_attrs request =
     bind (get_filename (path request) server_attrs) (\<lambda>r. case r of
       None \<Rightarrow> bind (response_internal_server_error fuel client_fd server_attrs) (\<lambda>_. return ERROR)
     | Some (filename_block, filename) \<Rightarrow>
         let extension = find_extension filename in
         if extension = None
         then bind (print_info ''don't know what to do with directory %s'') (\<lambda>_.
              bind (response_not_implemented fuel client_fd server_attrs) (\<lambda>_.
              bind (free filename_block) (\<lambda>_.
              return ERROR)))
         else
           bind (lift (strcmp_eq extension (Some ''.py''))) (\<lambda>py.
           bind (lift (strcmp_eq extension (Some ''.php''))) (\<lambda>php.
           if py \<or> php
           then bind (response_cgi fuel client_fd server_attrs (url_args request) filename extension) (\<lambda>cgi_ret.
                bind (free filename_block) (\<lambda>_.
                return cgi_ret))
           else get_file fuel client_fd server_attrs request filename_block filename extension)))"

definition response_options :: "nat \<Rightarrow> int \<Rightarrow> config \<Rightarrow> int prog" where
  "response_options fuel client_fd server_attrs =
     bind (dynamic_buffer_ini DEFAULT_INITIAL_CAPACITY) (\<lambda>db. case db of
       None \<Rightarrow>
         bind (print_error ''failed to allocate memory for dynamic buffer'') (\<lambda>_.
         bind (response_internal_server_error fuel client_fd server_attrs) (\<lambda>_.
         return ERROR))
     | Some db \<Rightarrow>
         bind (add_common_headers (Some db) server_attrs 200 ''OK'') (\<lambda>db.
         bind (append_all db
           [Text (Some (''Allow: GET, POST, OPTIONS'' @ CRLF)),
            Text (Some (''Content-Length: 0'' @ CRLF)),
            Text (Some (''Connection: keep-alive'' @ CRLF @ CRLF))]) (\<lambda>db.
         bind (socket_send client_fd (dynamic_buffer_get_buffer db) (dynamic_buffer_get_size db)) (\<lambda>sent.
         if sent < 0
         then bind (response_internal_server_error fuel client_fd server_attrs) (\<lambda>_.
              bind (dynamic_buffer_destroy db) (\<lambda>_.
              return ERROR))
         else return OK))))"

definition response_post :: "nat \<Rightarrow> int \<Rightarrow> config \<Rightarrow> request \<Rightarrow> int prog" where
  "response_post fuel client_fd server_attrs request =
     bind (get_filename (path request) server_attrs) (\<lambda>r. case r of
       None \<Rightarrow> bind (response_internal_server_error fuel client_fd server_attrs) (\<lambda>_. return ERROR)
     | Some (filename_block, filename) \<Rightarrow>
         let extension = find_extension filename in
         bind (response_cgi fuel client_fd server_attrs (body request) filename extension) (\<lambda>cgi_ret.
         bind (free filename_block) (\<lambda>_.
         return cgi_ret)))"

end
