(* ===== verification/Response_Facts.thy ===== *)
theory Response_Facts
  imports Response
begin

text \<open>
  What the functions of src/response.c send and leave behind. The texts of the responses are
  written out as functions of the configuration and the date; the lemmas show that the
  programs send exactly those bytes, for any content of the heap, and the properties at the
  end state what the client receives.
\<close>

section \<open>Texts\<close>

definition common_text :: "config \<Rightarrow> nat \<Rightarrow> string \<Rightarrow> string \<Rightarrow> string" where
  "common_text a code message date =
     ''HTTP/1.1 '' @ dec code @ '' '' @ message @ CRLF @ ''Date: '' @ date @
     CRLF @ ''Server: '' @ (case signature a of None \<Rightarrow> [] | Some s \<Rightarrow> cstr s) @ CRLF"

definition error_body :: "string \<Rightarrow> string" where
  "error_body message = ''<!DOCTYPE html><h1>'' @ message @ ''</h1>''"

definition error_text :: "config \<Rightarrow> nat \<Rightarrow> string \<Rightarrow> string \<Rightarrow> string" where
  "error_text a code message date = common_text a code message date @
     ''Content-Type: text/html; charset=UTF-8'' @ CRLF @ ''Content-Length: '' @ dec (length (error_body message)) @
     CRLF @ ''Connection: close'' @ CRLF @ CRLF @ error_body message"

text \<open>The date \<open>time\<close> gives as call number \<open>k\<close>.\<close>

definition date_at :: "env \<Rightarrow> nat \<Rightarrow> string" where
  "date_at E k = (case gmtime (now E k) of None \<Rightarrow> [] | Some t \<Rightarrow> http_date t)"

section \<open>The environment in which responses are sent\<close>

text \<open>Memory does not run out, the clock gives a date, and the configuration has a signature.\<close>

definition clock_ok :: "env \<Rightarrow> bool" where
  "clock_ok E \<longleftrightarrow> (\<forall>k. gmtime (now E k) \<noteq> None)"

lemma clock_okD: "clock_ok E \<Longrightarrow> \<exists>t. gmtime (now E k) = Some t"
  by (simp add: clock_ok_def)

definition server_ok :: "env \<Rightarrow> config \<Rightarrow> bool" where
  "server_ok E a \<longleftrightarrow> alloc_ok E \<and> clock_ok E \<and>
     (\<exists>s. signature a = Some s \<and> length s < 2 ^ 32)"

text \<open>Every \<open>send\<close> takes all of its bytes.\<close>

definition full_sends :: "env \<Rightarrow> bool" where
  "full_sends E \<longleftrightarrow> (\<forall>k. \<exists>n. send_ret E k = Some n \<and> 2 ^ 64 \<le> n)"

lemma server_okD:
  assumes "server_ok E a"
  obtains s where "alloc_ok E" and "clock_ok E" and "signature a = Some s" and "length s < 2 ^ 32"
  using assms by (auto simp: server_ok_def)

section \<open>Building headers\<close>

lemma wp_return_fun: "wp (return x) Q E = Q x"
  by (rule ext) simp

lemma wp_bind_fun: "wp (bind m f) Q E = wp m (\<lambda>x. wp (f x) Q E) E"
  by (rule ext) simp

lemma wp_lift_Ret: "wp (lift (Ret x)) Q E = Q x"
  by (rule ext) simp

lemma wp_append_all:
  "alloc_ok E \<Longrightarrow> db_holds d s F R w \<Longrightarrow> length s + weight ps < 2 ^ 64 \<Longrightarrow> no_null ps \<Longrightarrow>
   (\<And>d' w'. db_holds d' (s @ render ps) F R w' \<Longrightarrow> Q (Some d') w') \<Longrightarrow> wp (append_all (Some d) ps) Q E w"
  by (rule dynbuf.wp_append_pieces)

lemma db_holds_calls:
  "db_holds d s F R w \<Longrightarrow> db_holds d s F (R\<lparr>n_calls := c\<rparr>) (w\<lparr>n_calls := c\<rparr>)"
  by (auto simp: db_holds_def heap_ok_def rest_def)

lemma code_unat: "0 \<le> code \<Longrightarrow> code < 1000 \<Longrightarrow> unat (of_int code :: size_t) = nat code"
proof -
  assume "0 \<le> code" "code < 1000"
  then have "nat code < 2 ^ 64" by simp
  moreover have "(of_int code :: size_t) = of_nat (nat code)" using \<open>0 \<le> code\<close> by simp
  ultimately show ?thesis by (simp only: unat_of_nat_small)
qed

lemma wp_add_common_headers:
  assumes env: "server_ok E a" and h: "db_holds d s F R w"
    and len: "length s < 2 ^ 32" "length message < 2 ^ 32" and nn: "no_nul message"
    and code: "0 \<le> code" "code < 1000"
    and Q: "\<And>d' w'. db_holds d' (s @ common_text a (nat code) message (date_at E (n_calls w))) F
        (R\<lparr>n_calls := Suc (n_calls w)\<rparr>) w' \<Longrightarrow> Q (Some d') w'"
  shows "wp (add_common_headers (Some d) a code message) Q E w"
proof -
  from env obtain sig where alloc: "alloc_ok E" and clock: "clock_ok E"
    and sig: "signature a = Some sig" "length sig < 2 ^ 32" by (rule server_okD)
  obtain t where t: "gmtime (now E (n_calls w)) = Some t" using clock_okD [OF clock] by blast
  let ?arr = "strftime_array DATE_SIZE (http_date t) E"
  have arr: "array_string ?arr = Ret (Some ?arr)" "cstr ?arr = http_date t"
    using strftime_array_fits [OF no_nul_http_date, of t DATE_SIZE E] length_gmtime_date(2) [OF t]
    by (simp_all add: DATE_SIZE_def)
  let ?ps = "[Text (Some ''HTTP/1.1 ''), Number (of_int code), Text (Some '' ''), Text (Some message),
        Text (Some (CRLF @ ''Date: '')), Text (Some ?arr),
        Text (Some (CRLF @ ''Server: '')), Text (signature a), Text (Some CRLF)]"
  have "length (cstr sig) \<le> length sig" "length (http_date t) \<le> 36"
    using length_cstr length_gmtime_date(2) [OF t] by simp_all
  then have weight: "length s + weight ?ps < 2 ^ 64"
    using len sig arr(2) nn by simp
  have render: "render ?ps = common_text a (nat code) message (date_at E (n_calls w))"
    using code sig(1) arr(2) t nn by (simp add: common_text_def date_at_def code_unat)
  have "wp (append_all (Some d) ?ps) Q E (w\<lparr>n_calls := Suc (n_calls w)\<rparr>)"
    using weight render Q sig(1)
    by (intro wp_append_all [OF alloc db_holds_calls [OF h]]) simp_all
  then show ?thesis
    by (simp add: add_common_headers_def wp_simps deref_gmtime_def t arr(1))
qed

lemma length_common_text:
  assumes "server_ok E a" and "length message < 2 ^ 32" and "code < 1000"
  shows "length (common_text a code message (date_at E k)) < 2 ^ 34"
proof -
  from assms(1) obtain sig where sig: "signature a = Some sig" "length sig < 2 ^ 32"
    and clock: "clock_ok E" by (rule server_okD)
  obtain t where t: "gmtime (now E k) = Some t" using clock_okD [OF clock] by blast
  have "length (dec code) \<le> 3" using assms(3) by (intro length_dec_le) simp_all
  moreover have "length (cstr sig) \<le> length sig" by (rule length_cstr)
  ultimately show ?thesis
    using sig assms(2) length_gmtime_date(2) [OF t] by (simp add: common_text_def date_at_def t)
qed

lemma wp_error_headers:
  assumes env: "server_ok E a" and h: "db_holds d [] F R w"
    and len: "length message < 2 ^ 31" and nn: "no_nul message" and code: "0 \<le> code" "code < 1000"
    and Q: "\<And>d' w'. db_holds d' (error_text a (nat code) message (date_at E (n_calls w))) F
        (R\<lparr>n_calls := Suc (n_calls w)\<rparr>) w' \<Longrightarrow> Q (Some d') w'"
  shows "wp (error_headers (Some d) a code message) Q E w"
  unfolding error_headers_def wp_bind
proof (rule wp_add_common_headers [OF env h _ _ nn code])
  define k where "k = length (error_body message)"
  have k: "length body_1 + length (cstr message) + length body_2 = k" "k < 2 ^ 32"
    using nn len by (simp_all add: k_def error_body_def body_1_def body_2_def)
  have num: "number_text (unat (of_nat k :: size_t)) = dec k" using k(2) by (simp add: unat_of_nat_small)
  let ?ps = "[Text (Some (''Content-Type: text/html; charset=UTF-8'' @ CRLF @ ''Content-Length: '')),
        Number (of_nat k), Text (Some (CRLF @ ''Connection: close'' @ CRLF @ CRLF)),
        Text (Some body_1), Text (Some message), Text (Some body_2)]"
  fix d' w'
  assume h': "db_holds d' ([] @ common_text a (nat code) message (date_at E (n_calls w))) F (R\<lparr>n_calls := Suc (n_calls w)\<rparr>) w'"
  have ncode: "nat code < 1000" using code by simp
  have "alloc_ok E" using env by (simp add: server_ok_def)
  moreover have "length (common_text a (nat code) message (date_at E (n_calls w))) + weight ?ps < 2 ^ 64"
    using length_common_text [OF env, of message "nat code" "n_calls w"] len code(1) ncode nn
    by (simp add: body_1_def body_2_def)
  moreover have "common_text a (nat code) message (date_at E (n_calls w)) @ render ?ps
      = error_text a (nat code) message (date_at E (n_calls w))"
    using nn num k_def by (simp add: error_text_def error_body_def body_1_def body_2_def)
  ultimately have "wp (append_all (Some d') ?ps) Q E w'"
    using h' by (intro wp_append_all Q) auto
  then show "wp (append_all (Some d')
       [Text (Some (''Content-Type: text/html; charset=UTF-8'' @ CRLF @ ''Content-Length: '')),
        Number (of_nat (length body_1 + length (cstr message) + length body_2)),
        Text (Some (CRLF @ ''Connection: close'' @ CRLF @ CRLF)),
        Text (Some body_1), Text (Some message), Text (Some body_2)]) Q E w'"
    by (simp only: k(1))
qed (use len in simp_all)

section \<open>Sending\<close>

text \<open>Sending a buffer sends the bytes it holds.\<close>

lemma wp_send_buffer:
  assumes h: "db_holds d s F R w"
    and sent: "\<And>n l. send_ret E (n_send w) = Some n \<Longrightarrow> Q (int (min n (length s)))
      (w\<lparr>n_send := Suc (n_send w), trace := trace w @ [Sent fd (take n s)], log_out := l\<rparr>)"
    and refused: "\<And>l. send_ret E (n_send w) = None \<Longrightarrow> Q (-1) (w\<lparr>n_send := Suc (n_send w), log_out := l\<rparr>)"
  shows "wp (socket_send fd (dynamic_buffer_get_buffer (Some d)) (dynamic_buffer_get_size (Some d))) Q E w"
proof -
  obtain data where d: "dynamic_buffer_get_buffer (Some d) = Some data"
    "unat (dynamic_buffer_get_size (Some d)) = length s" "take (length s) data = s" "length s \<le> length data"
    using h by (rule dynbuf.given_bytes)
  have "take (min n (length s)) data = take n s" for n
    by (metis d(3) min.commute take_take)
  then show ?thesis
    using d sent refused by (auto simp: wp_socket_send split: option.split)
qed

definition sent_state :: "int \<Rightarrow> string \<Rightarrow> nat \<Rightarrow> world \<Rightarrow> world \<Rightarrow> bool" where
  "sent_state fd page k w w' \<longleftrightarrow>
     trace w' = trace w @ [Sent fd page] \<and> n_send w' = n_send w + k \<and> n_calls w' = n_calls w + k \<and>
     pending w' = pending w \<and> open_fds w' = open_fds w \<and> next_fd w' = next_fd w \<and>
     log_limit w' = log_limit w \<and> heap_ok w'"

text \<open>The blocks of a buffer that is never destroyed.\<close>

definition leaks_buffer :: "nat set \<Rightarrow> nat set \<Rightarrow> bool" where
  "leaks_buffer L L' \<longleftrightarrow> (\<exists>p q. p \<noteq> q \<and> p \<notin> L \<and> q \<notin> L \<and> L' = insert p (insert q L))"

text \<open>The page is built; what is left of \<open>_response_error\<close> is the sending.\<close>

lemma error_page_built:
  assumes env: "server_ok E a" and heap: "heap_ok w"
    and page: "length message < 2 ^ 31" "no_nul message" "0 \<le> code" "code < 1000"
  obtains d0 w0 d w1 where "dynamic_buffer_ini DEFAULT_INITIAL_CAPACITY E w = Ret (Some d0, w0)"
    and "error_headers (Some d0) a code message E w0 = Ret (Some d, w1)"
    and "db_holds d (error_text a (nat code) message (date_at E (n_calls w))) (live w)
      ((rest w)\<lparr>n_calls := Suc (n_calls w)\<rparr>) w1"
proof -
  have alloc: "alloc_ok E" using env by (simp add: server_ok_def)
  have "wp (dynamic_buffer_ini DEFAULT_INITIAL_CAPACITY) (\<lambda>d w'. \<exists>b. d = Some b \<and> db_holds b [] (live w) (rest w) w') E w"
    using alloc heap by (intro wp_dynamic_buffer_ini [OF _ _ _ refl]) (auto simp: DEFAULT_INITIAL_CAPACITY_def)
  then obtain d0 w0 where ini: "dynamic_buffer_ini DEFAULT_INITIAL_CAPACITY E w = Ret (Some d0, w0)"
    and h0: "db_holds d0 [] (live w) (rest w) w0" by (elim wpE) auto
  have calls: "n_calls w0 = n_calls w" using db_holds_sel(5) [OF h0] by simp
  have "wp (error_headers (Some d0) a code message) (\<lambda>d w'. \<exists>b. d = Some b \<and>
      db_holds b (error_text a (nat code) message (date_at E (n_calls w))) (live w)
        ((rest w)\<lparr>n_calls := Suc (n_calls w)\<rparr>) w') E w0"
    using page by (intro wp_error_headers [OF env h0]) (auto simp: calls)
  then obtain d w1 where "error_headers (Some d0) a code message E w0 = Ret (Some d, w1)"
    "db_holds d (error_text a (nat code) message (date_at E (n_calls w))) (live w)
        ((rest w)\<lparr>n_calls := Suc (n_calls w)\<rparr>) w1" by (elim wpE) auto
  with ini show thesis by (rule that)
qed

text \<open>The page is sent by the first \<open>send\<close> that is not refused. Its buffer is never destroyed.\<close>

lemma wp_response_error:
  assumes env: "server_ok E a"
  shows "heap_ok w \<Longrightarrow> length message < 2 ^ 31 \<Longrightarrow> no_nul message \<Longrightarrow> 0 \<le> code \<Longrightarrow> code < 1000 \<Longrightarrow>
    k < calls \<Longrightarrow> \<forall>i<k. send_ret E (n_send w + i) = None \<Longrightarrow> send_ret E (n_send w + k) = Some n \<Longrightarrow>
    (\<And>w'. sent_state fd (take n (if k = 0 then error_text a (nat code) message (date_at E (n_calls w))
        else error_text a 500 ''Internal Server Error'' (date_at E (n_calls w + k)))) (Suc k) w w' \<Longrightarrow>
      leaks_buffer (live w) (live w') \<Longrightarrow> Q (if k = 0 then OK else ERROR) w') \<Longrightarrow>
    wp (response_error calls fd a code message) Q E w"
proof (induction calls arbitrary: w code message k Q)
  case 0
  then show ?case by simp
next
  case (Suc calls)
  obtain d0 w0 d w1 where ini: "dynamic_buffer_ini DEFAULT_INITIAL_CAPACITY E w = Ret (Some d0, w0)"
    and hd: "error_headers (Some d0) a code message E w0 = Ret (Some d, w1)"
    and h: "db_holds d (error_text a (nat code) message (date_at E (n_calls w))) (live w)
      ((rest w)\<lparr>n_calls := Suc (n_calls w)\<rparr>) w1"
    using Suc.prems(2-5) by (rule error_page_built [OF env Suc.prems(1)])
  let ?page = "error_text a (nat code) message (date_at E (n_calls w))"
  note sel = db_holds_sel [OF h, simplified]
  have "wp (socket_send fd (dynamic_buffer_get_buffer (Some d)) (dynamic_buffer_get_size (Some d))) (\<lambda>sent w2.
      wp (if sent < 0
         then bind (print_error ''failed to send'') (\<lambda>_.
              bind (dynamic_buffer_destroy (Some d)) (\<lambda>_.
              bind (response_error calls fd a 500 ''Internal Server Error'') (\<lambda>_.
              return ERROR)))
         else return OK) Q E w2) E w1"
  proof (rule wp_send_buffer [OF h])
    fix m l
    let ?w2 = "w1\<lparr>n_send := Suc (n_send w1), trace := trace w1 @ [Sent fd (take m ?page)], log_out := l\<rparr>"
    assume m: "send_ret E (n_send w1) = Some m"
    then have k: "k = 0" "m = n" using sel Suc.prems(7,8) by (cases k; force)+
    have "sent_state fd (take n ?page) (Suc 0) w ?w2" "leaks_buffer (live w) (live ?w2)"
      using h sel k by (auto simp: sent_state_def leaks_buffer_def db_holds_def heap_ok_def)
    then show "wp (if int (min m (length ?page)) < 0
         then bind (print_error ''failed to send'') (\<lambda>_.
              bind (dynamic_buffer_destroy (Some d)) (\<lambda>_.
              bind (response_error calls fd a 500 ''Internal Server Error'') (\<lambda>_.
              return ERROR)))
         else return OK) Q E ?w2" using Suc.prems(9) [of ?w2] k by simp
  next
    fix l
    assume none: "send_ret E (n_send w1) = None"
    then obtain k' where k': "k = Suc k'" using sel Suc.prems(8) by (cases k) auto
    have go: "wp (response_error calls fd a 500 ''Internal Server Error'') (\<lambda>_. Q ERROR) E w3"
      if w3: "live w3 = live w" "heap_ok w3" "n_send w3 = Suc (n_send w)" "n_calls w3 = Suc (n_calls w)"
        "trace w3 = trace w" "pending w3 = pending w" "open_fds w3 = open_fds w" "next_fd w3 = next_fd w"
        "log_limit w3 = log_limit w" for w3
    proof (rule Suc.IH [OF w3(2), where k = k'])
      show "\<forall>i<k'. send_ret E (n_send w3 + i) = None" "send_ret E (n_send w3 + k') = Some n" "k' < calls"
        using Suc.prems(6-8) w3(3) k' by auto
      fix w'
      assume "sent_state fd (take n (if k' = 0
            then error_text a (nat 500) ''Internal Server Error'' (date_at E (n_calls w3))
            else error_text a 500 ''Internal Server Error'' (date_at E (n_calls w3 + k')))) (Suc k') w3 w'"
        "leaks_buffer (live w3) (live w')"
      then show "Q ERROR w'"
        using w3 k' Suc.prems(9) [of w'] by (cases k') (simp_all add: sent_state_def)
    qed simp_all
    let ?w2 = "w1\<lparr>n_send := Suc (n_send w1), log_out := l\<rparr>"
    have "wp (dynamic_buffer_destroy (Some d)) (\<lambda>_. wp (response_error calls fd a 500 ''Internal Server Error'') (\<lambda>_. Q ERROR) E)
        E (?w2\<lparr>log_out := l'\<rparr>)" for l'
    proof (rule wp_dynamic_buffer_destroy [OF db_holds_world [OF h]])
      fix w3
      assume w3: "live w3 = live w" "heap_ok w3" "rest w3 = rest (?w2\<lparr>log_out := l'\<rparr>)"
      show "wp (response_error calls fd a 500 ''Internal Server Error'') (\<lambda>_. Q ERROR) E w3"
        using w3(1,2) rest_eqD [OF w3(3)] sel by (intro go) simp_all
    qed simp_all
    then show "wp (if (-1::int) < 0
         then bind (print_error ''failed to send'') (\<lambda>_.
              bind (dynamic_buffer_destroy (Some d)) (\<lambda>_.
              bind (response_error calls fd a 500 ''Internal Server Error'') (\<lambda>_.
              return ERROR)))
         else return OK) Q E ?w2" by (simp add: wp_print)
  qed
  then show ?case
    by (simp add: wp_Ret [of "dynamic_buffer_ini DEFAULT_INITIAL_CAPACITY" E w, OF ini]
        wp_Ret [of "error_headers (Some d0) a code message" E w0, OF hd])
qed

text \<open>When every \<open>send\<close> is refused, no number of calls is enough.\<close>

lemma response_error_never_returns:
  assumes env: "server_ok E a"
  shows "heap_ok w \<Longrightarrow> length message < 2 ^ 31 \<Longrightarrow> no_nul message \<Longrightarrow> 0 \<le> code \<Longrightarrow> code < 1000 \<Longrightarrow>
    \<forall>i. send_ret E (n_send w + i) = None \<Longrightarrow> response_error calls fd a code message E w = Unfinished"
proof (induction calls arbitrary: w code message)
  case 0
  then show ?case by (simp add: unfinished_def)
next
  case (Suc calls)
  obtain d0 w0 d w1 where ini: "dynamic_buffer_ini DEFAULT_INITIAL_CAPACITY E w = Ret (Some d0, w0)"
    and hd: "error_headers (Some d0) a code message E w0 = Ret (Some d, w1)"
    and h: "db_holds d (error_text a (nat code) message (date_at E (n_calls w))) (live w)
      ((rest w)\<lparr>n_calls := Suc (n_calls w)\<rparr>) w1"
    using Suc.prems(2-5) by (rule error_page_built [OF env Suc.prems(1)])
  note sel = db_holds_sel [OF h, simplified]
  have none: "send_ret E (n_send w1) = None" using sel Suc.prems(6) [rule_format, of 0] by simp
  have "wp (socket_send fd (dynamic_buffer_get_buffer (Some d)) (dynamic_buffer_get_size (Some d)))
      (\<lambda>sent w2. sent = -1 \<and> (\<exists>l. w2 = w1\<lparr>n_send := Suc (n_send w1), log_out := l\<rparr>)) E w1"
    using none by (intro wp_send_buffer [OF h]) auto
  then obtain l where snd: "socket_send fd (dynamic_buffer_get_buffer (Some d)) (dynamic_buffer_get_size (Some d)) E w1
      = Ret (-1, w1\<lparr>n_send := Suc (n_send w1), log_out := l\<rparr>)" by (elim wpE) auto
  let ?w2 = "w1\<lparr>n_send := Suc (n_send w1), log_out := l\<rparr>"
  have "wp (bind (print_error ''failed to send'') (\<lambda>_. dynamic_buffer_destroy (Some d)))
      (\<lambda>_ w3. heap_ok w3 \<and> n_send w3 = Suc (n_send w)) E ?w2"
    using sel
    by (auto simp: wp_print dest!: rest_eqD(4) intro!: wp_dynamic_buffer_destroy [OF db_holds_world [OF h]])
  then obtain w3 where w3: "bind (print_error ''failed to send'') (\<lambda>_. dynamic_buffer_destroy (Some d)) E ?w2 = Ret ((), w3)"
    "heap_ok w3" "n_send w3 = Suc (n_send w)" by (elim wpE) auto
  have "send_ret E (n_send w3 + i) = None" for i
    using Suc.prems(6) [rule_format, of "Suc i"] w3(3) by simp
  then have rec: "response_error calls fd a 500 ''Internal Server Error'' E w3 = Unfinished"
    by (intro Suc.IH [OF w3(2)]) simp_all
  have "response_error (Suc calls) fd a code message E w =
      bind (bind (print_error ''failed to send'') (\<lambda>_. dynamic_buffer_destroy (Some d)))
        (\<lambda>_. bind (response_error calls fd a 500 ''Internal Server Error'') (\<lambda>_. return ERROR)) E ?w2"
    unfolding bind_assoc by (simp add: bind_def ini hd snd)
  also have "\<dots> = Unfinished"
    unfolding bind_def [of "bind _ _"] w3(1) by (simp add: bind_def rec)
  finally show ?case .
qed

section \<open>Names and types of files\<close>

lemma find_extension_loop_no_dot:
  "CHR ''.'' \<notin> set (cstr s) \<Longrightarrow> find_extension_loop s x = x"
  by (induction s arbitrary: x) auto

lemma find_extension_loop_dot:
  "CHR ''.'' \<in> set (cstr s) \<Longrightarrow>
   \<exists>e u v. find_extension_loop s x = Some e \<and> cstr s = u @ ''.'' @ v \<and> CHR ''.'' \<notin> set v \<and> cstr e = ''.'' @ v"
proof (induction s arbitrary: x)
  case Nil
  then show ?case by simp
next
  case (Cons c s)
  then have c: "c \<noteq> NUL" by auto
  show ?case
  proof (cases "CHR ''.'' \<in> set (cstr s)")
    case True
    obtain e u v where "find_extension_loop s (if c = CHR ''.'' then Some (c # s) else x) = Some e"
      "cstr s = u @ ''.'' @ v" "CHR ''.'' \<notin> set v" "cstr e = ''.'' @ v"
      using Cons.IH [OF True] by blast
    with c show ?thesis by (intro exI [of _ e] exI [of _ "c # u"] exI [of _ v]) simp
  next
    case False
    with Cons.prems c have "c = CHR ''.''" by simp
    with False show ?thesis
      by (intro exI [of _ "c # s"] exI [of _ "[]"] exI [of _ "cstr s"]) (simp add: find_extension_loop_no_dot)
  qed
qed

text \<open>The extension of a name: what follows its last dot, with the dot.\<close>

definition extension_of :: "string \<Rightarrow> string option" where
  "extension_of s = (if CHR ''.'' \<in> set s then Some (''.'' @ rev (takeWhile (\<lambda>c. c \<noteq> CHR ''.'') (rev s))) else None)"

lemma extension_of_split: "CHR ''.'' \<notin> set v \<Longrightarrow> extension_of (u @ ''.'' @ v) = Some (''.'' @ v)"
proof -
  assume "CHR ''.'' \<notin> set v"
  then have "takeWhile (\<lambda>c. c \<noteq> CHR ''.'') (rev v @ CHR ''.'' # rev u) = rev v"
    by (intro takeWhile_append_stop) auto
  then show ?thesis by (simp add: extension_of_def)
qed

lemma find_extension_eq: "map_option cstr (find_extension s) = extension_of (cstr s)"
proof (cases "CHR ''.'' \<in> set (cstr s)")
  case True
  obtain e u v where "find_extension s = Some e" "cstr s = u @ ''.'' @ v" "CHR ''.'' \<notin> set v" "cstr e = ''.'' @ v"
    using find_extension_loop_dot [OF True, of None] unfolding find_extension_def by blast
  then show ?thesis using extension_of_split by simp
next
  case False
  then show ?thesis by (simp add: find_extension_def find_extension_loop_no_dot extension_of_def)
qed

lemma match_type_eq:
  "\<forall>(x, t) \<in> set types. no_nul x \<Longrightarrow> match_type types (Some e) = Ret (map_of types (cstr e))"
  by (induction types "Some e" rule: match_type.induct) (auto simp: strcmp_eq_def)

lemma get_content_type_eq: "get_content_type (Some e) = Ret (map_of content_types (cstr e))"
  unfolding get_content_type_def by (rule match_type_eq) (simp add: content_types_def)

text \<open>The name a path stands for.\<close>

definition file_name :: "config \<Rightarrow> sized_string \<Rightarrow> string" where
  "file_name a p = (case base_path a of None \<Rightarrow> [] | Some b \<Rightarrow> cstr b) @
     (if bytes p = ''/'' then (case default_path a of None \<Rightarrow> [] | Some d \<Rightarrow> cstr d) else cstr (bytes p))"

lemma strncpy_ok:
  assumes "n \<le> length s"
  shows "\<exists>t. strncpy (Some s) n = Ret t \<and> length t = n \<and> cstr (t @ [NUL]) = cstr (take n s)"
proof -
  let ?t = "take n (cstr s) @ replicate (n - length (take n (cstr s))) NUL"
  have "cstr (take n s) = take n (cstr s)"
    using no_nul_cstr [of s]
  proof (induction s arbitrary: n)
    case (Cons c s)
    then show ?case by (cases n) auto
  qed simp
  moreover have pad: "cstr (replicate k NUL @ [NUL]) = []" for k by (cases k) simp_all
  have "cstr (?t @ [NUL]) = take n (cstr s)"
    using no_nul_take [OF no_nul_cstr, of n s]
    by (simp add: cstr_append_no_nul pad)
  ultimately show ?thesis
    using assms by (intro exI [of _ ?t]) (simp add: strncpy_def Let_def)
qed

lemma wp_get_filename:
  assumes alloc: "malloc_ok E (n_malloc w)" and p: "readable p" "str_data p \<noteq> None"
    and base: "base_path a = Some b" "length b < 2 ^ 64" and def_path: "default_path a = Some df" "length df < 2 ^ 64"
    and Q: "\<And>fn. cstr fn = file_name a p \<Longrightarrow> Q (Some (n_malloc w, fn))
      (w\<lparr>n_malloc := Suc (n_malloc w), live := insert (n_malloc w) (live w)\<rparr>)"
  shows "wp (get_filename p a) Q E w"
proof -
  have n: "length (cstr b) < 2 ^ 64" "length (cstr df) < 2 ^ 64"
    using length_cstr [of b] length_cstr [of df] base(2) def_path(2) by linarith+
  obtain tb where tb: "strncpy (Some b) (length (cstr b)) = Ret tb" "cstr (tb @ [NUL]) = cstr (take (length (cstr b)) b)"
    using strncpy_ok [OF length_cstr, of b] by blast
  have take_cstr: "take (length (cstr x)) x = cstr x" for x
    by (simp add: cstr_def takeWhile_eq_take [symmetric])
  have "tb = cstr b"
    using tb(1) by (auto simp: strncpy_def Let_def split: if_splits)
  then have fin: "Q (Some (n_malloc w, tb @ t @ [NUL]))
      (w\<lparr>n_malloc := Suc (n_malloc w), live := insert (n_malloc w) (live w)\<rparr>)"
    if "cstr (t @ [NUL]) = (if bytes p = ''/'' then cstr df else cstr (bytes p))" for t
    using that base def_path by (intro Q) (simp add: cstr_append_no_nul file_name_def)
  show ?thesis
  proof (cases "bytes p = ''/''")
    case True
    obtain t where "strncpy (Some df) (length (cstr df)) = Ret t" "cstr (t @ [NUL]) = cstr (take (length (cstr df)) df)"
      using strncpy_ok [OF length_cstr, of df] by blast
    with True fin [of t] show ?thesis
      using alloc base def_path tb(1) n(2) take_cstr
      by (simp add: get_filename_def string_is_equal_to_eq [OF p(1)] strlen_def wp_simps unat_of_nat_small del: power_numeral)
  next
    case False
    obtain d where d: "str_data p = Some d" using p(2) by auto
    then have "unat (str_size p) \<le> length d" using p(1) by (simp add: readable_def)
    then obtain t where "strncpy (Some d) (unat (str_size p)) = Ret t" "cstr (t @ [NUL]) = cstr (bytes p)"
      using strncpy_ok [of "unat (str_size p)" d] d by (auto simp: bytes_def)
    with False fin [of t] d show ?thesis
      using alloc base tb(1)
      by (simp add: get_filename_def string_is_equal_to_eq [OF p(1)] strlen_def wp_simps)
  qed
qed

section \<open>Sending a file\<close>

text \<open>What sending on \<open>fd\<close> leaves unchanged, apart from the bytes sent on \<open>fd\<close>.\<close>

definition sends_only :: "int \<Rightarrow> world \<Rightarrow> world \<Rightarrow> bool" where
  "sends_only fd w w' \<longleftrightarrow> (\<forall>fd'. fd' \<noteq> fd \<longrightarrow> sent_on fd' (trace w') = sent_on fd' (trace w)) \<and>
     pending w' = pending w \<and> open_fds w' = open_fds w \<and> next_fd w' = next_fd w \<and> n_calls w' = n_calls w \<and>
     log_limit w' = log_limit w"

lemma sends_only_refl [simp]: "sends_only fd w w"
  by (simp add: sends_only_def)

lemma sends_only_trans: "sends_only fd w w' \<Longrightarrow> sends_only fd w' w'' \<Longrightarrow> sends_only fd w w''"
  by (simp add: sends_only_def)

lemma wp_send_all:
  assumes h: "db_holds d s F R w" and full: "full_sends E"
    and Q: "\<And>r w'. live w' = live w \<Longrightarrow> n_malloc w' = n_malloc w \<Longrightarrow> sends_only fd w w' \<Longrightarrow>
      sent_on fd (trace w') = sent_on fd (trace w) @ s \<Longrightarrow> 0 \<le> r \<Longrightarrow> Q r w'"
  shows "wp (socket_send fd (dynamic_buffer_get_buffer (Some d)) (dynamic_buffer_get_size (Some d))) Q E w"
proof (rule wp_send_buffer [OF h])
  obtain m where m: "send_ret E (n_send w) = Some m" "2 ^ 64 \<le> m" using full unfolding full_sends_def by blast
  have "length s < 2 ^ 64" using db_holds_length [OF h] by simp
  with m(2) have all: "take m s = s" by simp
  fix n l assume "send_ret E (n_send w) = Some n"
  with m all have "take n s = s" by simp
  then show "Q (int (min n (length s))) (w\<lparr>n_send := Suc (n_send w), trace := trace w @ [Sent fd (take n s)], log_out := l\<rparr>)"
    by (intro Q) (simp_all add: sends_only_def)
next
  fix l assume "send_ret E (n_send w) = None"
  then show "Q (-1) (w\<lparr>n_send := Suc (n_send w), log_out := l\<rparr>)" using full by (metis full_sends_def option.distinct(1))
qed

lemma wp_send_file_loop:
  assumes full: "full_sends E"
  shows "db_holds d s F R w \<Longrightarrow> 0 < unat (db_capacity d) \<Longrightarrow> length f < 2 ^ 63 \<Longrightarrow>
    2 * length f + (if length s = unat (db_capacity d) then 1 else 0) \<le> n \<Longrightarrow>
    (\<And>d' s' w'. db_holds d' s' F (rest w') w' \<Longrightarrow> sends_only fd w w' \<Longrightarrow>
       sent_on fd (trace w') @ s' = sent_on fd (trace w) @ s @ f \<Longrightarrow> Q (Some d') w') \<Longrightarrow>
    wp (send_file_loop n fd (Some d) (Some f) (of_nat (length f))) Q E w"
proof (induction n arbitrary: d s R w f)
  case 0
  then show ?case using db_holds_world [OF "0.prems"(1), of w] by simp
next
  case (Suc n)
  let ?cap = "unat (db_capacity d)"
  let ?k = "?cap - length s"
  show ?case
  proof (cases "f = []")
    case True
    then show ?thesis using Suc.prems(5) [OF db_holds_world [OF Suc.prems(1)], of w] by simp
  next
    case False
    have pos: "(of_nat (length f) :: size_t) > 0"
      using False Suc.prems(3) by (simp add: word_less_nat_alt unat_of_nat_small)
    have cap: "length s \<le> ?cap" using db_holds_capacity [OF Suc.prems(1)] .
    let ?got = "take ?k f" and ?left = "drop ?k f"
    have sizes: "length f = length ?got + length ?left" by (simp add: min_def)
    have "(of_nat (length f) :: size_t) = of_nat (length ?got) + of_nat (length ?left)"
      by (subst sizes) (rule of_nat_add)
    then have left: "(of_nat (length f) - of_nat (length ?got) :: size_t) = of_nat (length ?left)"
      by (simp only: add_diff_cancel_left')
    have step: "wp (if dynamic_buffer_is_full (Some d')
           then bind (socket_send fd (dynamic_buffer_get_buffer (Some d')) (dynamic_buffer_get_size (Some d'))) (\<lambda>_.
                send_file_loop n fd (dynamic_buffer_clear (Some d')) (Some ?left) (of_nat (length ?left)))
           else send_file_loop n fd (Some d') (Some ?left) (of_nat (length ?left))) Q E w"
      if h': "db_holds d' (s @ ?got) F R w" and cap': "db_capacity d' = db_capacity d" for d'
    proof (cases "length (s @ ?got) = ?cap")
      case isfull: True
      then have t: "dynamic_buffer_is_full (Some d')"
        using db_holds_full_iff [OF h'] cap' by (simp add: dynamic_buffer_is_full_def)
      obtain g l where gl: "length ?got = g" "length ?left = l" by blast
      have sum: "length f = g + l" using sizes by (simp only: gl)
      have fill: "length s + g = ?cap" using isfull by (simp only: length_append gl)
      have "2 * l \<le> n"
        using Suc.prems(4) sum fill by (cases "length s = ?cap") simp_all
      then have less: "2 * length ?left \<le> n" by (simp only: gl)
      have "wp (socket_send fd (dynamic_buffer_get_buffer (Some d')) (dynamic_buffer_get_size (Some d')))
          (\<lambda>_. wp (send_file_loop n fd (dynamic_buffer_clear (Some d')) (Some ?left) (of_nat (length ?left))) Q E) E w"
      proof (rule wp_send_all [OF h' full])
        fix w'
        assume w': "live w' = live w" "n_malloc w' = n_malloc w" "sends_only fd w w'"
          "sent_on fd (trace w') = sent_on fd (trace w) @ s @ ?got"
        have "db_holds (d'\<lparr>db_size := 0\<rparr>) [] F (rest w') w'"
          using db_holds_clear [OF db_holds_world [OF h' w'(1,2)]] .
        then show "wp (send_file_loop n fd (dynamic_buffer_clear (Some d')) (Some ?left) (of_nat (length ?left))) Q E w'"
          unfolding dynamic_buffer_clear_def option.map
        proof (rule Suc.IH)
          fix d'' s' w''
          assume "db_holds d'' s' F (rest w'') w''" "sends_only fd w' w''"
            "sent_on fd (trace w'') @ s' = sent_on fd (trace w') @ [] @ ?left"
          then show "Q (Some d'') w''"
            using w' sends_only_trans by (intro Suc.prems(5)) (auto simp: append_assoc)
        qed (use Suc.prems(2,3) cap' less in simp_all)
      qed
      with t show ?thesis by simp
    next
      case room: False
      then have "?left = []" using cap by (auto simp: min_def split: if_splits)
      have t: "\<not> dynamic_buffer_is_full (Some d')"
        using db_holds_full_iff [OF h'] cap' room by (simp add: dynamic_buffer_is_full_def)
      have "wp (send_file_loop n fd (Some d') (Some ?left) (of_nat (length ?left))) Q E w"
      proof (rule Suc.IH [OF h'])
        fix d'' s' w''
        assume "db_holds d'' s' F (rest w'') w''" "sends_only fd w w''"
          "sent_on fd (trace w'') @ s' = sent_on fd (trace w) @ (s @ ?got) @ ?left"
        then show "Q (Some d'') w''" by (intro Suc.prems(5)) auto
      qed (use Suc.prems(2,3) cap' room \<open>?left = []\<close> in simp_all)
      with t show ?thesis by simp
    qed
    have "wp (dynamic_buffer_append_file_chunked (Some d) (Some f)) (\<lambda>(bytes_read, db, f'). wp (if dynamic_buffer_is_full db
           then bind (socket_send fd (dynamic_buffer_get_buffer db) (dynamic_buffer_get_size db)) (\<lambda>_.
                send_file_loop n fd (dynamic_buffer_clear db) f' (of_nat (length f) - bytes_read))
           else send_file_loop n fd db f' (of_nat (length f) - bytes_read)) Q E) E w"
      by (rule wp_append_file_chunked [OF Suc.prems(1)]) (simp only: prod.case left, rule step)
    with pos show ?thesis
      unfolding send_file_loop.simps if_P [OF pos] wp_bind by (simp add: split_beta' del: wp_if wp_bind)
  qed
qed

section \<open>Answering GET for a file\<close>

definition file_text :: "config \<Rightarrow> string \<Rightarrow> string \<Rightarrow> nat \<Rightarrow> string \<Rightarrow> string \<Rightarrow> string" where
  "file_text a type etag len last_modified date = common_text a 200 ''OK'' date @
     ''Content-Type: '' @ type @ ''; charset=UTF-8'' @ CRLF @ ''ETag: '' @ etag @ CRLF @
     ''Content-Length: '' @ dec len @ CRLF @ last_modified @ ''Connection: keep-alive'' @ CRLF @ CRLF"

definition not_modified_text :: "config \<Rightarrow> string \<Rightarrow> string" where
  "not_modified_text a date = common_text a 304 ''Not Modified'' date @
     CRLF @ ''Connection: keep-alive'' @ CRLF @ CRLF"

lemma wp_not_modified:
  assumes env: "server_ok E a" and h: "db_holds d [] F R w"
    and Q: "\<And>d' w'. db_holds d' (not_modified_text a (date_at E (n_calls w))) F (R\<lparr>n_calls := Suc (n_calls w)\<rparr>) w' \<Longrightarrow>
      Q (Some d') w'"
  shows "wp (not_modified (Some d) a) Q E w"
  unfolding not_modified_def wp_bind
proof (rule wp_add_common_headers [OF env h])
  fix d' w'
  assume h': "db_holds d' ([] @ common_text a (nat 304) ''Not Modified'' (date_at E (n_calls w))) F (R\<lparr>n_calls := Suc (n_calls w)\<rparr>) w'"
  have "alloc_ok E" using env by (simp add: server_ok_def)
  moreover have "length (common_text a 304 ''Not Modified'' (date_at E (n_calls w))) < 2 ^ 34"
    by (rule length_common_text [OF env]) simp_all
  ultimately show "wp (append_all (Some d') [Text (Some (CRLF @ ''Connection: keep-alive'' @ CRLF @ CRLF))]) Q E w'"
    using h' by (intro wp_append_all Q) (auto simp: not_modified_text_def)
qed simp_all

lemma wp_file_headers:
  assumes env: "server_ok E a" and h: "db_holds d [] F R w"
    and type: "no_nul type" "length type < 2 ^ 32" and etag: "length (cstr etag) < 2 ^ 32"
    and sz: "unat sz = n" "n < 10 ^ 19" and arr: "NUL \<in> set arr" "length arr < 2 ^ 32"
    and Q: "\<And>d' w'. db_holds d' (file_text a type (cstr etag) n (cstr arr) (date_at E (n_calls w))) F
        (R\<lparr>n_calls := Suc (n_calls w)\<rparr>) w' \<Longrightarrow> Q (Some d') w'"
  shows "wp (file_headers (Some d) a (Some type) etag sz arr) Q E w"
  unfolding file_headers_def wp_bind
proof (rule wp_add_common_headers [OF env h])
  let ?ps = "[Text (Some ''Content-Type: ''), Text (Some type), Text (Some (''; charset=UTF-8'' @ CRLF)),
        Text (Some ''ETag: ''), Text (Some etag),
        Text (Some (CRLF @ ''Content-Length: '')), Number sz, Text (Some CRLF)]"
  let ?ps2 = "[Text (Some arr), Text (Some (''Connection: keep-alive'' @ CRLF @ CRLF))]"
  let ?c = "common_text a 200 ''OK'' (date_at E (n_calls w))"
  fix d' w'
  assume h': "db_holds d' ([] @ common_text a (nat 200) ''OK'' (date_at E (n_calls w))) F (R\<lparr>n_calls := Suc (n_calls w)\<rparr>) w'"
  have alloc: "alloc_ok E" using env by (simp add: server_ok_def)
  have c: "length ?c < 2 ^ 34" by (rule length_common_text [OF env]) simp_all
  have num: "number_text (unat sz) = dec n" "length (dec n) \<le> 20"
    using sz length_dec_le [of n 20] by simp_all
  have all: "?c @ render ?ps @ render ?ps2 = file_text a type (cstr etag) n (cstr arr) (date_at E (n_calls w))"
    using type num(1) by (simp add: file_text_def)
  have w1: "length ?c + weight ?ps < 2 ^ 36" using c type etag by simp
  have r1: "length (render ?ps) < 2 ^ 35" using type etag num sz by simp
  have arr': "array_string arr = Ret (Some arr)" "length (cstr arr) < 2 ^ 32"
    using arr length_cstr [of arr] by (simp_all add: array_string_def)
  have "wp (append_all (Some d') ?ps) (\<lambda>db. wp (append_all db ?ps2) Q E) E w'"
  proof (rule wp_append_all [OF alloc])
    show "db_holds d' ?c F (R\<lparr>n_calls := Suc (n_calls w)\<rparr>) w'" using h' by simp
    show "length ?c + weight ?ps < 2 ^ 64" using w1 by simp
    show "no_null ?ps" by simp
    fix d2 w2
    assume h2: "db_holds d2 (?c @ render ?ps) F (R\<lparr>n_calls := Suc (n_calls w)\<rparr>) w2"
    show "wp (append_all (Some d2) ?ps2) Q E w2"
    proof (rule wp_append_all [OF alloc h2])
      show "length (?c @ render ?ps) + weight ?ps2 < 2 ^ 64"
        using c r1 arr'(2) by (simp only: length_append) simp
      show "no_null ?ps2" by simp
      fix d3 w3
      assume "db_holds d3 ((?c @ render ?ps) @ render ?ps2) F (R\<lparr>n_calls := Suc (n_calls w)\<rparr>) w3"
      then show "Q (Some d3) w3" unfolding append_assoc all by (rule Q)
    qed
  qed
  then show "wp (append_all (Some d') ?ps) (\<lambda>db. wp (lift (array_string arr)) (\<lambda>last_modified.
      wp (append_all db [Text last_modified, Text (Some (''Connection: keep-alive'' @ CRLF @ CRLF))]) Q E) E) E w'"
    by (simp only: arr'(1) wp_lift_Ret)
qed simp_all

text \<open>What the opened file and its two \<open>stat\<close> calls have to be for the answer to be exact.\<close>

definition stable_file :: "env \<Rightarrow> nat \<Rightarrow> string \<Rightarrow> string \<Rightarrow> int \<Rightarrow> bool" where
  "stable_file E k name f mtime \<longleftrightarrow> file_at E name = Some f \<and> length f < 2 ^ 63 \<and>
     (\<exists>m. stat_of E k name = Some (int (length f), m)) \<and>
     (\<exists>n. stat_of E (Suc k) name = Some (n, mtime)) \<and> gmtime mtime \<noteq> None"

lemma wp_get_file_size [wp_simps]:
  "stat_of E (n_calls w) (cstr fn) = Some (n, m) \<Longrightarrow>
   wp (get_file_size fn) Q E w = Q (of_int n) (w\<lparr>n_calls := Suc (n_calls w)\<rparr>)"
  by (simp add: get_file_size_def wp_simps)

lemma wp_get_file_last_modified [wp_simps]:
  "stat_of E (n_calls w) (cstr fn) = Some (n, m) \<Longrightarrow>
   wp (get_file_last_modified fn) Q E w = Q m (w\<lparr>n_calls := Suc (n_calls w)\<rparr>)"
  by (simp add: get_file_last_modified_def wp_simps)

text \<open>The array for the date of the last change is too short for its text, whatever the date.\<close>

lemma last_modified_array:
  assumes "gmtime m = Some t"
  shows "strftime_array DATE_SIZE (''Last modified: '' @ http_date t @ CRLF) E = fresh_bytes E 0 40"
  using length_gmtime_date(1) [OF assms] by (simp add: strftime_array_def DATE_SIZE_def)

text \<open>What is left to do once the buffer holds the last bytes: they are sent, if there are any.\<close>

lemma wp_send_rest:
  assumes h: "db_holds d s F (rest w) w" and full: "full_sends E" and b: "b \<in> F"
    and Q: "\<And>w'. live w' = F - {b} \<Longrightarrow> heap_ok w' \<Longrightarrow> sends_only fd w w' \<Longrightarrow>
      sent_on fd (trace w') = sent_on fd (trace w) @ s \<Longrightarrow> Q OK w'"
  shows "wp (bind (if \<not> dynamic_buffer_is_empty (Some d)
           then bind (socket_send fd (dynamic_buffer_get_buffer (Some d)) (dynamic_buffer_get_size (Some d))) (\<lambda>_. return ())
           else return ()) (\<lambda>_.
     bind (dynamic_buffer_destroy (Some d)) (\<lambda>_.
     bind (free b) (\<lambda>_.
     return OK)))) Q E w"
proof -
  have fin: "wp (dynamic_buffer_destroy (Some d)) (\<lambda>_. wp (free b) (\<lambda>_. Q OK) E) E w1"
    if w1: "live w1 = live w" "n_malloc w1 = n_malloc w" "sends_only fd w w1" "sent_on fd (trace w1) = sent_on fd (trace w) @ s" for w1
  proof (rule wp_dynamic_buffer_destroy [OF db_holds_world [OF h w1(1,2)]])
    fix w2
    assume w2: "live w2 = F" "heap_ok w2" "rest w2 = rest w1"
    have "Q OK (w2\<lparr>live := F - {b}\<rparr>)"
      using w1(3,4) w2 rest_eqD [OF w2(3)] by (intro Q) (auto simp: sends_only_def heap_ok_def)
    then show "wp (free b) (\<lambda>_. Q OK) E w2" using b w2(1) by (simp add: wp_free)
  qed
  show ?thesis
  proof (cases "s = []")
    case True
    then have "dynamic_buffer_is_empty (Some d)"
      using db_holds_empty_iff [OF h] by (simp add: dynamic_buffer_is_empty_def)
    with True fin [of w] show ?thesis by simp
  next
    case False
    then have "\<not> dynamic_buffer_is_empty (Some d)"
      using db_holds_empty_iff [OF h] by (simp add: dynamic_buffer_is_empty_def)
    moreover have "wp (socket_send fd (dynamic_buffer_get_buffer (Some d)) (dynamic_buffer_get_size (Some d)))
        (\<lambda>_. wp (dynamic_buffer_destroy (Some d)) (\<lambda>_. wp (free b) (\<lambda>_. Q OK) E) E) E w"
      by (rule wp_send_all [OF h full]) (rule fin)
    ultimately show ?thesis by simp
  qed
qed

text \<open>The whole answer: the headers and the file, or the short answer when the client's entity tag is the
  file's.\<close>

definition get_text :: "env \<Rightarrow> config \<Rightarrow> string \<Rightarrow> string \<Rightarrow> bool \<Rightarrow> string \<Rightarrow> nat \<Rightarrow> string" where
  "get_text E a type etag same f k =
     (if same then not_modified_text a (date_at E k)
      else file_text a type etag (length f) (cstr (fresh_bytes E 0 40)) (date_at E k) @ f)"

lemma wp_get_opened:
  assumes env: "server_ok E a" and full: "full_sends E" and h: "db_holds d [] F (rest w) w" and b: "b \<in> F"
    and stable: "stable_file E (n_calls w) (cstr fn) f mtime"
    and type: "no_nul type" "length type < 2 ^ 32"
    and header: "request_get_header r (Some ''If-None-Match'') = Ret hdr" "readable hdr"
    and etag: "make_etag mtime (path r) = Ret etag" "length etag < 2 ^ 32"
    and arr: "NUL \<in> set (fresh_bytes E 0 40)" and fuel: "2 * length f + 1 \<le> fuel"
    and Q: "\<And>w'. live w' = F - {b} \<Longrightarrow> heap_ok w' \<Longrightarrow>
      sent_on fd (trace w') = sent_on fd (trace w) @
        get_text E a type (cstr etag) (bytes hdr = cstr etag) f (n_calls w + 2) \<Longrightarrow>
      sends_only fd (w\<lparr>n_calls := n_calls w + 3\<rparr>) w' \<Longrightarrow> Q OK w'"
  shows "wp (get_opened fuel fd a r b fn (Some type) (Some d) f) Q E w"
proof -
  obtain t m n where t: "gmtime mtime = Some t" and len: "length f < 2 ^ 63"
    and st: "stat_of E (n_calls w) (cstr fn) = Some (int (length f), m)"
      "stat_of E (Suc (n_calls w)) (cstr fn) = Some (n, mtime)"
    using stable unfolding stable_file_def by blast
  let ?w2 = "w\<lparr>n_calls := Suc (Suc (n_calls w))\<rparr>"
  let ?arr = "fresh_bytes E 0 40"
  let ?fin = "\<lambda>db. bind (if \<not> dynamic_buffer_is_empty db
           then bind (socket_send fd (dynamic_buffer_get_buffer db) (dynamic_buffer_get_size db)) (\<lambda>_. return ())
           else return ()) (\<lambda>_.
     bind (dynamic_buffer_destroy db) (\<lambda>_.
     bind (free b) (\<lambda>_.
     return OK)))"
  have h2: "db_holds d [] F (rest ?w2) ?w2" by (rule db_holds_world [OF h]) simp_all
  have clen: "length (cstr etag) < 2 ^ 32" using etag(2) length_cstr [of etag] by simp
  have sz: "unat (of_nat (length f) :: size_t) = length f" using len by (simp add: unat_of_nat_small)
  have start: "rest w1 = (rest ?w2)\<lparr>n_calls := Suc (n_calls ?w2)\<rparr> \<Longrightarrow>
      sends_only fd (w\<lparr>n_calls := n_calls w + 3\<rparr>) w1 \<and> sent_on fd (trace w1) = sent_on fd (trace w)" for w1
    using rest_sel [of w1] by (simp add: sends_only_def)
  have fin: "wp (?fin (Some d')) Q E w1"
    if h': "db_holds d' s F (rest w1) w1" and so: "sends_only fd (w\<lparr>n_calls := n_calls w + 3\<rparr>) w1"
      and tx: "sent_on fd (trace w1) @ s = sent_on fd (trace w) @
        get_text E a type (cstr etag) (bytes hdr = cstr etag) f (n_calls w + 2)" for d' s w1
    using tx by (intro wp_send_rest [OF h' full b] Q) (auto intro: sends_only_trans [OF so])
  have main: "wp (if bytes hdr = cstr etag then not_modified (Some d) a
           else bind (file_headers (Some d) a (Some type) etag (of_nat (length f)) ?arr) (\<lambda>db.
                send_file_loop fuel fd db (Some f) (of_nat (length f)))) (\<lambda>db. wp (?fin db) Q E) E ?w2"
  proof (cases "bytes hdr = cstr etag")
    case True
    have "wp (not_modified (Some d) a) (\<lambda>db. wp (?fin db) Q E) E ?w2"
    proof (rule wp_not_modified [OF env h2])
      fix d' w'
      assume h': "db_holds d' (not_modified_text a (date_at E (n_calls ?w2))) F ((rest ?w2)\<lparr>n_calls := Suc (n_calls ?w2)\<rparr>) w'"
      have st': "sends_only fd (w\<lparr>n_calls := n_calls w + 3\<rparr>) w' \<and> sent_on fd (trace w') = sent_on fd (trace w)"
        using db_holds_rest [OF h'] by (rule start)
      have tx: "get_text E a type (cstr etag) (bytes hdr = cstr etag) f (n_calls w + 2)
          = not_modified_text a (date_at E (n_calls ?w2))"
        using True by (simp add: get_text_def)
      show "wp (?fin (Some d')) Q E w'"
        using st' tx by (intro fin [OF db_holds_world [OF h' refl refl]]) simp_all
    qed
    then show ?thesis by (subst if_P [OF True])
  next
    case False
    have "wp (file_headers (Some d) a (Some type) etag (of_nat (length f)) ?arr)
        (\<lambda>db. wp (send_file_loop fuel fd db (Some f) (of_nat (length f))) (\<lambda>db. wp (?fin db) Q E) E) E ?w2"
    proof (rule wp_file_headers [OF env h2 type clen sz _ arr])
      fix d1 w1
      assume h1: "db_holds d1 (file_text a type (cstr etag) (length f) (cstr ?arr) (date_at E (n_calls ?w2))) F
        ((rest ?w2)\<lparr>n_calls := Suc (n_calls ?w2)\<rparr>) w1"
      have st1: "sends_only fd (w\<lparr>n_calls := n_calls w + 3\<rparr>) w1" "sent_on fd (trace w1) = sent_on fd (trace w)"
        using start [OF db_holds_rest [OF h1]] by simp_all
      have cap: "0 < unat (db_capacity d1)"
        using db_holds_capacity [OF h1] by (simp add: file_text_def common_text_def)
      show "wp (send_file_loop fuel fd (Some d1) (Some f) (of_nat (length f))) (\<lambda>db. wp (?fin db) Q E) E w1"
      proof (rule wp_send_file_loop [OF full h1 cap len])
        fix d' s' w'
        assume w': "db_holds d' s' F (rest w') w'" "sends_only fd w1 w'"
          "sent_on fd (trace w') @ s' = sent_on fd (trace w1) @
            file_text a type (cstr etag) (length f) (cstr ?arr) (date_at E (n_calls ?w2)) @ f"
        show "wp (?fin (Some d')) Q E w'"
          using w'(3) False st1 by (intro fin [OF w'(1)] sends_only_trans [OF st1(1) w'(2)]) (simp add: get_text_def)
      qed (use fuel in auto)
    qed (use len in simp_all)
    then show ?thesis by (subst if_not_P [OF False], subst wp_bind)
  qed
  have "wp (get_opened fuel fd a r b fn (Some type) (Some d) f) Q E w \<longleftrightarrow>
      wp (if bytes hdr = cstr etag then not_modified (Some d) a
           else bind (file_headers (Some d) a (Some type) etag (of_nat (length f)) ?arr) (\<lambda>db.
                send_file_loop fuel fd db (Some f) (of_nat (length f)))) (\<lambda>db. wp (?fin db) Q E) E ?w2"
    using st by (simp add: get_opened_def wp_get_file_size wp_get_file_last_modified deref_gmtime_def t
        last_modified_array [OF t, simplified] header(1) etag(1) string_is_equal_to_eq [OF header(2)] wp_bind_fun del: wp_if)
  with main show ?thesis by simp
qed

text \<open>A configuration whose strings are there.\<close>

definition config_ok :: "config \<Rightarrow> bool" where
  "config_ok a \<longleftrightarrow> (\<exists>b d. base_path a = Some b \<and> length b < 2 ^ 64 \<and> default_path a = Some d \<and> length d < 2 ^ 64)"

lemma wp_get_file_name:
  assumes "alloc_ok E" and "config_ok a" and "readable p" and "str_data p \<noteq> None"
    and "\<And>fn. cstr fn = file_name a p \<Longrightarrow> Q (Some (n_malloc w, fn))
      (w\<lparr>n_malloc := Suc (n_malloc w), live := insert (n_malloc w) (live w)\<rparr>)"
  shows "wp (get_filename p a) Q E w"
proof -
  obtain b d where bd: "base_path a = Some b" "length b < 2 ^ 64" "default_path a = Some d" "length d < 2 ^ 64"
    using assms(2) unfolding config_ok_def by blast
  show ?thesis by (rule wp_get_filename [OF _ assms(3,4) bd]) (simp_all add: assms(1,5))
qed

lemma types_no_nul: "map_of content_types x = Some t \<Longrightarrow> no_nul t \<and> length t < 2 ^ 32 \<and> x \<noteq> ''.py'' \<and> x \<noteq> ''.php''"
  by (auto simp: content_types_def split: if_splits)

lemma wp_response_get_file:
  assumes env: "server_ok E a" "config_ok a" "full_sends E" and heap: "heap_ok w"
    and path: "readable (path r)" "str_data (path r) \<noteq> None"
    and ext: "extension_of (file_name a (path r)) = Some x" "map_of content_types x = Some type"
    and stable: "stable_file E (n_calls w) (file_name a (path r)) f mtime"
    and header: "request_get_header r (Some ''If-None-Match'') = Ret hdr" "readable hdr"
    and etag: "make_etag mtime (path r) = Ret etag" "length etag < 2 ^ 32"
    and arr: "NUL \<in> set (fresh_bytes E 0 40)" and fuel: "2 * length f + 1 \<le> fuel"
    and Q: "\<And>w'. live w' = live w \<Longrightarrow> heap_ok w' \<Longrightarrow>
      sent_on fd (trace w') = sent_on fd (trace w) @
        get_text E a type (cstr etag) (bytes hdr = cstr etag) f (n_calls w + 2) \<Longrightarrow>
      sends_only fd (w\<lparr>n_calls := n_calls w + 3\<rparr>) w' \<Longrightarrow> Q OK w'"
  shows "wp (response_get fuel fd a r) Q E w"
  unfolding response_get_def wp_bind
proof (rule wp_get_file_name [OF _ env(2) path])
  show alloc: "alloc_ok E" using env(1) by (simp add: server_ok_def)
  fix fn
  let ?w1 = "w\<lparr>n_malloc := Suc (n_malloc w), live := insert (n_malloc w) (live w)\<rparr>"
  assume fn: "cstr fn = file_name a (path r)"
  obtain e where e: "find_extension fn = Some e" "cstr e = x"
    using find_extension_eq [of fn] ext(1) fn by auto
  have type: "no_nul type" "length type < 2 ^ 32" "x \<noteq> ''.py''" "x \<noteq> ''.php''"
    using types_no_nul [OF ext(2)] by simp_all
  have contents: "file_at E (cstr fn) = Some f" using stable fn by (simp add: stable_file_def)
  have heap1: "heap_ok ?w1" using heap by (auto simp: heap_ok_def less_Suc_eq)
  have fresh: "n_malloc w \<notin> live w" using heap by (rule heap_ok_fresh)
  have opened: "wp (get_opened fuel fd a r (n_malloc w) fn (Some type) (Some d) f) Q E w2"
    if h: "db_holds d [] (live ?w1) (rest ?w1) w1" and w2: "live w2 = live w1" "n_malloc w2 = n_malloc w1" "rest w2 = rest w1" for d w1 w2
  proof (rule wp_get_opened [OF env(1,3) db_holds_world [OF h w2(1,2)]])
    have sel: "n_calls w2 = n_calls w" "trace w2 = trace w"
      "pending w2 = pending w" "open_fds w2 = open_fds w" "next_fd w2 = next_fd w" "log_limit w2 = log_limit w"
      using db_holds_sel [OF h] rest_eqD [OF w2(3)] by simp_all
    show "stable_file E (n_calls w2) (cstr fn) f mtime" using stable fn sel by simp
    show "n_malloc w \<in> live ?w1" by simp
    fix w'
    assume "live w' = live ?w1 - {n_malloc w}" "heap_ok w'"
      "sent_on fd (trace w') = sent_on fd (trace w2) @ get_text E a type (cstr etag) (bytes hdr = cstr etag) f (n_calls w2 + 2)"
      "sends_only fd (w2\<lparr>n_calls := n_calls w2 + 3\<rparr>) w'"
    then show "Q OK w'" using fresh sel by (intro Q) (auto simp: sends_only_def)
  qed (use type header etag arr fuel in simp_all)
  have "wp (get_file fuel fd a r (n_malloc w) fn (Some e)) Q E ?w1"
    unfolding get_file_def wp_bind
  proof (rule wp_dynamic_buffer_ini [OF _ _ heap1 refl])
    fix d w1
    assume h: "db_holds d [] (live ?w1) (rest ?w1) w1"
    have "wp (get_opened fuel fd a r (n_malloc w) fn (Some type) (Some d) f) Q E (w1\<lparr>log_out := l\<rparr>)" for l
      by (rule opened [OF h]) simp_all
    then show "wp (case Some d of
       None \<Rightarrow>
         bind (print_error ''failed to allocate memory for dynamic buffer'') (\<lambda>_.
         bind (response_internal_server_error fuel fd a) (\<lambda>_.
         bind (free (n_malloc w)) (\<lambda>_.
         return ERROR)))
     | Some db \<Rightarrow>
         bind (lift (get_content_type (Some e))) (\<lambda>content_type.
         if content_type = None
         then bind (print_error ''unrecognized content type for %s'') (\<lambda>_.
              bind (response_not_found fuel fd a) (\<lambda>_.
              bind (free (n_malloc w)) (\<lambda>_.
              bind (dynamic_buffer_destroy (Some db)) (\<lambda>_.
              return ERROR))))
         else
           bind (print_debug ''%s requested (type %s)'') (\<lambda>_.
           bind (asks (\<lambda>E. file_at E (cstr fn))) (\<lambda>f. case f of
             None \<Rightarrow>
               bind (print_error ''can't open %s: %s'') (\<lambda>_.
               bind (response_not_found fuel fd a) (\<lambda>_.
               bind (free (n_malloc w)) (\<lambda>_.
               bind (dynamic_buffer_destroy (Some db)) (\<lambda>_.
               return ERROR))))
           | Some f \<Rightarrow>
               get_opened fuel fd a r (n_malloc w) fn content_type (Some db) f)))) Q E w1"
      by (simp add: get_content_type_eq e(2) ext(2) contents wp_print)
  qed (use alloc in \<open>simp_all add: DEFAULT_INITIAL_CAPACITY_def\<close>)
  then show "wp (case Some (n_malloc w, fn) of
       None \<Rightarrow> bind (response_internal_server_error fuel fd a) (\<lambda>_. return ERROR)
     | Some (filename_block, filename) \<Rightarrow>
         let extension = find_extension filename in
         if extension = None
         then bind (print_info ''don't know what to do with directory %s'') (\<lambda>_.
              bind (response_not_implemented fuel fd a) (\<lambda>_.
              bind (free filename_block) (\<lambda>_.
              return ERROR)))
         else
           bind (lift (strcmp_eq extension (Some ''.py''))) (\<lambda>py.
           bind (lift (strcmp_eq extension (Some ''.php''))) (\<lambda>php.
           if py \<or> php
           then bind (response_cgi fuel fd a (url_args r) filename extension) (\<lambda>cgi_ret.
                bind (free filename_block) (\<lambda>_.
                return cgi_ret))
           else get_file fuel fd a r filename_block filename extension))) Q E ?w1"
    using e type by (simp add: strcmp_eq_def)
qed

section \<open>Answering with the output of a script\<close>

definition cgi_text :: "config \<Rightarrow> string \<Rightarrow> string \<Rightarrow> string" where
  "cgi_text a out date = common_text a 200 ''OK'' date @
     ''Content-Type: text/plain; charset=UTF-8'' @ CRLF @ ''Content-Length: '' @ dec (length out) @ CRLF @
     ''Connection: keep-alive'' @ CRLF @ CRLF @ out"

text \<open>A buffer stays what it was while other blocks come and go.\<close>

lemma db_holds_frame:
  assumes "db_holds d s F R w" and "live w' = insert (sb_ptr d) (insert (buf_ptr d) F')"
    and "sb_ptr d \<notin> F'" and "buf_ptr d \<notin> F'" and "heap_ok w'"
  shows "db_holds d s F' (rest w') w'"
  using assms by (simp add: db_holds_def)

lemma wp_append_buffer:
  assumes alloc: "alloc_ok E" and h: "db_holds d s F R w" and src: "db_holds o' out F' R' w'"
    and small: "length s + length out < 2 ^ 64"
    and Q: "\<And>d' w''. db_holds d' (s @ out) F R w'' \<Longrightarrow> Q (dynamic_buffer_get_size (Some o'), Some d') w''"
  shows "wp (dynamic_buffer_append (Some d) (dynamic_buffer_get_buffer (Some o')) (dynamic_buffer_get_size (Some o'))) Q E w"
proof -
  obtain data where o': "dynamic_buffer_get_buffer (Some o') = Some data"
    "unat (dynamic_buffer_get_size (Some o')) = length out" "take (length out) data = out" "length out \<le> length data"
    using src by (rule dynbuf.given_bytes)
  show ?thesis unfolding o'(1)
  proof (rule wp_append [OF h])
    show "Q (dynamic_buffer_get_size (Some o'), Some d') w''"
      if "db_holds d' (s @ take (unat (dynamic_buffer_get_size (Some o'))) data) F R w''" for d' w''
      using that by (intro Q) (simp add: o')
  qed (use o' small alloc in simp_all)
qed

lemma wp_cgi_send:
  assumes env: "server_ok E a" "full_sends E"
    and h: "db_holds d [] (insert (sb_ptr o') (insert (buf_ptr o') F)) (rest w) w"
    and src: "db_holds o' out F' R' w0" and free': "sb_ptr o' \<notin> F" "buf_ptr o' \<notin> F" and small: "length out < 2 ^ 62"
    and Q: "\<And>w'. live w' = F \<Longrightarrow> heap_ok w' \<Longrightarrow> sends_only fd (w\<lparr>n_calls := Suc (n_calls w)\<rparr>) w' \<Longrightarrow>
      sent_on fd (trace w') = sent_on fd (trace w) @ cgi_text a out (date_at E (n_calls w)) \<Longrightarrow> Q OK w'"
  shows "wp (cgi_send calls fd a (Some d) (Some o')) Q E w"
proof -
  let ?F = "insert (sb_ptr o') (insert (buf_ptr o') F)" and ?R = "(rest w)\<lparr>n_calls := Suc (n_calls w)\<rparr>"
  let ?c = "common_text a 200 ''OK'' (date_at E (n_calls w))"
  let ?ps = "[Text (Some (''Content-Type: text/plain; charset=UTF-8'' @ CRLF @ ''Content-Length: '')),
        Number (dynamic_buffer_get_size (Some o')), Text (Some (CRLF @ ''Connection: keep-alive'' @ CRLF @ CRLF))]"
  have alloc: "alloc_ok E" using env(1) by (simp add: server_ok_def)
  obtain data where size: "unat (dynamic_buffer_get_size (Some o')) = length out"
    using src by (rule dynbuf.given_bytes)
  have page: "(?c @ render ?ps) @ out = cgi_text a out (date_at E (n_calls w))"
    using small by (simp add: cgi_text_def size)
  have c: "length ?c < 2 ^ 34" by (rule length_common_text [OF env(1)]) simp_all
  have r: "length (render ?ps) < 2 ^ 10"
    using length_number_text_le [of "dynamic_buffer_get_size (Some o')"] by simp
  have fin: "wp (dynamic_buffer_destroy (Some d')) (\<lambda>_. wp (dynamic_buffer_destroy (Some o')) (\<lambda>_. Q OK) E) E w2"
    if h': "db_holds d' s ?F (rest w1) w1" and "live w2 = live w1" "n_malloc w2 = n_malloc w1"
      "sends_only fd (w\<lparr>n_calls := Suc (n_calls w)\<rparr>) w2"
      "sent_on fd (trace w2) = sent_on fd (trace w) @ cgi_text a out (date_at E (n_calls w))" for d' s w1 w2
  proof (rule wp_dynamic_buffer_destroy [OF db_holds_world [OF h' that(2,3)]])
    fix w3
    assume w3: "live w3 = ?F" "heap_ok w3" "rest w3 = rest w2"
    show "wp (dynamic_buffer_destroy (Some o')) (\<lambda>_. Q OK) E w3"
    proof (rule wp_dynamic_buffer_destroy [OF db_holds_frame [OF src w3(1) free' w3(2)]])
      fix w4
      assume "live w4 = F" "heap_ok w4" "rest w4 = rest w3"
      then show "Q OK w4"
        using that(4,5) rest_eqD [OF w3(3)] rest_eqD [of w4 w3] by (intro Q) (auto simp: sends_only_def)
    qed
  qed
  show ?thesis
    unfolding cgi_send_def wp_bind_fun split_beta'
  proof (rule wp_add_common_headers [OF env(1) h])
    fix d1 w1
    assume h1: "db_holds d1 ([] @ common_text a (nat 200) ''OK'' (date_at E (n_calls w))) ?F ?R w1"
    show "wp (append_all (Some d1) ?ps) (\<lambda>db. wp (dynamic_buffer_append db (dynamic_buffer_get_buffer (Some o')) (dynamic_buffer_get_size (Some o')))
      (\<lambda>x. wp (socket_send fd (dynamic_buffer_get_buffer (snd x)) (dynamic_buffer_get_size (snd x)))
        (\<lambda>sent. wp (if sent < 0
           then bind (response_internal_server_error calls fd a) (\<lambda>_.
                bind (dynamic_buffer_destroy (snd x)) (\<lambda>_.
                bind (dynamic_buffer_destroy (Some o')) (\<lambda>_.
                return ERROR)))
           else bind (dynamic_buffer_destroy (snd x)) (\<lambda>_.
                bind (dynamic_buffer_destroy (Some o')) (\<lambda>_.
                return OK))) Q E) E) E) E w1"
    proof (rule wp_append_all [OF alloc])
      show "db_holds d1 ?c ?F ?R w1" using h1 by simp
      show "length ?c + weight ?ps < 2 ^ 64" using c by simp
      show "no_null ?ps" by simp
      fix d2 w2
      assume h2: "db_holds d2 (?c @ render ?ps) ?F ?R w2"
      show "wp (dynamic_buffer_append (Some d2) (dynamic_buffer_get_buffer (Some o')) (dynamic_buffer_get_size (Some o')))
      (\<lambda>x. wp (socket_send fd (dynamic_buffer_get_buffer (snd x)) (dynamic_buffer_get_size (snd x)))
        (\<lambda>sent. wp (if sent < 0
           then bind (response_internal_server_error calls fd a) (\<lambda>_.
                bind (dynamic_buffer_destroy (snd x)) (\<lambda>_.
                bind (dynamic_buffer_destroy (Some o')) (\<lambda>_.
                return ERROR)))
           else bind (dynamic_buffer_destroy (snd x)) (\<lambda>_.
                bind (dynamic_buffer_destroy (Some o')) (\<lambda>_.
                return OK))) Q E) E) E w2"
      proof (rule wp_append_buffer [OF alloc h2 src])
        show "length (?c @ render ?ps) + length out < 2 ^ 64" using c r small by (simp only: length_append) simp
        fix d3 w3
        assume "db_holds d3 ((?c @ render ?ps) @ out) ?F ?R w3"
        then have h3: "db_holds d3 (cgi_text a out (date_at E (n_calls w))) ?F ?R w3" unfolding page .
        have sel: "sends_only fd (w\<lparr>n_calls := Suc (n_calls w)\<rparr>) w3" "sent_on fd (trace w3) = sent_on fd (trace w)"
          using db_holds_sel [OF h3] by (simp_all add: sends_only_def)
        have "wp (socket_send fd (dynamic_buffer_get_buffer (Some d3)) (dynamic_buffer_get_size (Some d3)))
          (\<lambda>sent w'. 0 \<le> sent \<and> wp (dynamic_buffer_destroy (Some d3)) (\<lambda>_. wp (dynamic_buffer_destroy (Some o')) (\<lambda>_. Q OK) E) E w') E w3"
          using sel by (intro wp_send_all [OF h3 env(2)] conjI fin [OF db_holds_world [OF h3 refl refl]])
            (auto intro: sends_only_trans)
        then show "wp (socket_send fd (dynamic_buffer_get_buffer (snd (dynamic_buffer_get_size (Some o'), Some d3)))
            (dynamic_buffer_get_size (snd (dynamic_buffer_get_size (Some o'), Some d3))))
          (\<lambda>sent. wp (if sent < 0
           then bind (response_internal_server_error calls fd a) (\<lambda>_.
                bind (dynamic_buffer_destroy (snd (dynamic_buffer_get_size (Some o'), Some d3))) (\<lambda>_.
                bind (dynamic_buffer_destroy (Some o')) (\<lambda>_.
                return ERROR)))
           else bind (dynamic_buffer_destroy (snd (dynamic_buffer_get_size (Some o'), Some d3))) (\<lambda>_.
                bind (dynamic_buffer_destroy (Some o')) (\<lambda>_.
                return OK))) Q E) E w3"
          unfolding snd_conv by (rule wp_mono) (simp add: wp_bind_fun wp_return_fun)
      qed
    qed
  qed simp_all
qed

definition interpreter_of :: "string \<Rightarrow> string" where
  "interpreter_of x = (if x = ''.py'' then ''python3'' else ''php'')"

definition script_output_of :: "env \<Rightarrow> config \<Rightarrow> string \<Rightarrow> string \<Rightarrow> string \<Rightarrow> string" where
  "script_output_of E a x name input = stream (script_run E (interpreter_of x) name input (max 0 (script_timeout a)))"

lemma wp_response_cgi:
  assumes env: "server_ok E a" "full_sends E" "calls_ok E" and heap: "heap_ok w"
    and scripts: "scripts_end E n" "0 < n" "n \<le> fuel" "n < 2 ^ 62" and args: "readable args"
    and e: "cstr e = x" "x = ''.py'' \<or> x = ''.php''" and access: "access_ok E (cstr fn)"
    and Q: "\<And>w' k. live w' = live w \<Longrightarrow> heap_ok w' \<Longrightarrow>
      (\<And>fd'. sent_on fd' (trace w') = sent_on fd' (trace w) @
        (if fd' = fd then cgi_text a (script_output_of E a x (cstr fn) (bytes args)) (date_at E k) else [])) \<Longrightarrow>
      Q OK w'"
  shows "wp (response_cgi fuel fd a args fn (Some e)) Q E w"
proof -
  have alloc: "alloc_ok E" using env(1) by (simp add: server_ok_def)
  let ?out = "script_output_of E a x (cstr fn) (bytes args)"
  have len: "length ?out < 2 ^ 62"
    using scripts(1,4) unfolding scripts_end_def script_output_of_def by (metis less_trans stream_pipe_bytes)
  have run: "wp (execute_script fuel (interpreter_of x) (cstr fn) args (script_timeout a))
      (\<lambda>script_output. wp (case script_output of
               None \<Rightarrow> bind (response_internal_server_error fuel fd a) (\<lambda>_.
                       bind (dynamic_buffer_destroy (Some d)) (\<lambda>_.
                       return ERROR))
             | Some script_output \<Rightarrow> cgi_send fuel fd a (Some d) (Some script_output)) Q E) E w1"
    if h: "db_holds d [] (live w) (rest w) w1" for d w1
  proof (rule wp_execute_script [OF alloc _ scripts(1-3) _ args])
    show "heap_ok w1" using h by (simp add: db_holds_def)
    fix r w2 dups
    assume keeps: "keeps_below (next_fd w1) w1 w2" and dups: "calls_ok E \<longrightarrow> dups"
      and r: "script_result E dups (interpreter_of x) (cstr fn) args (script_timeout a) (live w1) r w2"
    from dups env(3) have "dups" by simp
    with r env(3) obtain o' where o': "r = Some o'" "db_holds o' ?out (live w1) (rest w2) w2"
      by (auto simp: script_result_def script_child_def script_output_of_def max_timeout split: option.splits)
    have live: "live w1 = insert (sb_ptr d) (insert (buf_ptr d) (live w))" using h by (simp add: db_holds_def)
    have h2: "db_holds d [] (insert (sb_ptr o') (insert (buf_ptr o') (live w))) (rest w2) w2"
    proof (rule db_holds_frame [OF h])
      show "live w2 = insert (sb_ptr d) (insert (buf_ptr d) (insert (sb_ptr o') (insert (buf_ptr o') (live w))))"
        using o'(2) live by (auto simp: db_holds_def)
    qed (use h o'(2) live in \<open>auto simp: db_holds_def\<close>)
    have "wp (cgi_send fuel fd a (Some d) (Some o')) Q E w2"
    proof (rule wp_cgi_send [OF env(1,2) h2 o'(2) _ _ len])
      fix w3
      assume w3: "live w3 = live w" "heap_ok w3" "sends_only fd (w2\<lparr>n_calls := Suc (n_calls w2)\<rparr>) w3"
        "sent_on fd (trace w3) = sent_on fd (trace w2) @ cgi_text a ?out (date_at E (n_calls w2))"
      have "trace w1 = trace w" using db_holds_sel [OF h] by simp
      with keeps w3(3,4) show "Q OK w3"
        by (intro Q [OF w3(1,2), where k = "n_calls w2"]) (auto simp: keeps_below_def sends_only_def)
    qed (use o'(2) live in \<open>auto simp: db_holds_def\<close>)
    with o'(1) show "wp (case r of
               None \<Rightarrow> bind (response_internal_server_error fuel fd a) (\<lambda>_.
                       bind (dynamic_buffer_destroy (Some d)) (\<lambda>_.
                       return ERROR))
             | Some script_output \<Rightarrow> cgi_send fuel fd a (Some d) (Some script_output)) Q E w2" by simp
  qed (use scripts in simp_all)
  show ?thesis
    unfolding response_cgi_def wp_bind
  proof (rule wp_dynamic_buffer_ini [OF _ _ heap refl])
    fix d w1
    assume h: "db_holds d [] (live w) (rest w) w1"
    show "wp (case Some d of
       None \<Rightarrow>
         bind (print_error ''failed to allocate memory for dynamic buffer'') (\<lambda>_.
         bind (response_internal_server_error fuel fd a) (\<lambda>_.
         return ERROR))
     | Some response \<Rightarrow>
         bind (asks (\<lambda>E. access_ok E (cstr fn))) (\<lambda>exists.
         if \<not> exists
         then bind (response_not_found fuel fd a) (\<lambda>_.
              bind (dynamic_buffer_destroy (Some response)) (\<lambda>_.
              return NOT_FOUND))
         else
           bind (lift (strcmp_eq (Some e) (Some ''.py''))) (\<lambda>py.
           bind (if py then return False else lift (strcmp_eq (Some e) (Some ''.php''))) (\<lambda>php.
           if \<not> py \<and> \<not> php
           then bind (response_not_implemented fuel fd a) (\<lambda>_.
                bind (dynamic_buffer_destroy (Some response)) (\<lambda>_.
                return BAD_REQUEST))
           else
             bind (if py then execute_python_script fuel (cstr fn) args (script_timeout a)
                   else execute_php_script fuel (cstr fn) args (script_timeout a)) (\<lambda>script_output.
             case script_output of
               None \<Rightarrow> bind (response_internal_server_error fuel fd a) (\<lambda>_.
                       bind (dynamic_buffer_destroy (Some response)) (\<lambda>_.
                       return ERROR))
             | Some script_output \<Rightarrow>
                 cgi_send fuel fd a (Some response) (Some script_output)))))) Q E w1"
      using run [OF h] e access
      by (auto simp: strcmp_eq_def execute_python_script_def execute_php_script_def interpreter_of_def
        simp del: wp_case_option ERROR_def)
  qed (use alloc in \<open>simp_all add: DEFAULT_INITIAL_CAPACITY_def\<close>)
qed

end
