(* ===== verification/Response_Total.thy ===== *)
theory Response_Total
  imports Response_Facts
begin

text \<open>
  The complete answers the server can give, and every branch of \<open>response_get\<close>, \<open>response_post\<close> and
  \<open>response_options\<close>, errors included: under the assumptions on the environment that the exact answers need
  (memory, clock, whole sends), each returns and sends one such answer on the client's descriptor, and none on another.
  The theory that follows a connection from its first request to its end rests on these lemmas.
\<close>

section \<open>One answer\<close>

definition options_text :: "config \<Rightarrow> string \<Rightarrow> string" where
  "options_text a date = common_text a 200 ''OK'' date @ ''Allow: GET, POST, OPTIONS'' @ CRLF @
     ''Content-Length: 0'' @ CRLF @ ''Connection: keep-alive'' @ CRLF @ CRLF"

definition error_pages :: "(nat \<times> string) list" where
  "error_pages = [(400, ''Bad Request''), (400, ''Bad Request - Request Too Long''), (404, ''Not Found''),
     (501, ''Not Implemented''), (500, ''Internal Server Error'')]"

text \<open>The answers of the server, each from its status line to the last byte of its body.\<close>

inductive an_answer :: "config \<Rightarrow> string \<Rightarrow> bool" for a where
  error_page: "(code, message) \<in> set error_pages \<Longrightarrow> an_answer a (error_text a code message date)"
| whole_file: "type \<in> snd ` set content_types \<Longrightarrow>
    an_answer a (file_text a type etag (length f) last_modified date @ f)"
| unchanged: "an_answer a (not_modified_text a date)"
| script_output: "an_answer a (cgi_text a out date)"
| options: "an_answer a (options_text a date)"

text \<open>Every answer but the short one for an unchanged file announces the length of its body.\<close>

lemma announced_length:
  assumes "an_answer a s"
  shows "(\<exists>date. s = not_modified_text a date) \<or>
    (\<exists>first more body. s = first @ ''Content-Length: '' @ dec (length body) @ CRLF @ more @ CRLF @ body)"
  using assms
proof cases
  case (error_page code message date)
  then show ?thesis
    by (intro disjI2 exI [of _ "common_text a code message date @ ''Content-Type: text/html; charset=UTF-8'' @ CRLF"]
      exI [of _ "''Connection: close'' @ CRLF"] exI [of _ "error_body message"]) (simp add: error_text_def)
next
  case (whole_file type etag f last_modified date)
  then show ?thesis
    by (intro disjI2 exI [of _ "common_text a 200 ''OK'' date @ ''Content-Type: '' @ type @ ''; charset=UTF-8'' @ CRLF @ ''ETag: '' @ etag @ CRLF"]
      exI [of _ "last_modified @ ''Connection: keep-alive'' @ CRLF"] exI [of _ f]) (simp add: file_text_def)
next
  case (unchanged date)
  then show ?thesis by blast
next
  case (script_output out date)
  then show ?thesis
    by (intro disjI2 exI [of _ "common_text a 200 ''OK'' date @ ''Content-Type: text/plain; charset=UTF-8'' @ CRLF"]
      exI [of _ "''Connection: keep-alive'' @ CRLF"] exI [of _ out]) (simp add: cgi_text_def)
next
  case (options date)
  have "dec 0 = ''0''" by (simp add: dec.simps [of 0] digit_def char_of_def bit_Suc_0_iff)
  with options show ?thesis
    by (intro disjI2 exI [of _ "common_text a 200 ''OK'' date @ ''Allow: GET, POST, OPTIONS'' @ CRLF"]
      exI [of _ "''Connection: keep-alive'' @ CRLF"] exI [of _ "[]"]) (simp add: options_text_def)
qed

text \<open>What handling a request may change, as long as nothing was sent yet; and a state in which exactly one
  answer was sent. Blocks are allowed to stay allocated: the buffer of an error page is never destroyed.\<close>

definition kept :: "int \<Rightarrow> world \<Rightarrow> world \<Rightarrow> bool" where
  "kept fd w w' \<longleftrightarrow> heap_ok w' \<and> live w \<subseteq> live w' \<and> next_fd w \<le> next_fd w' \<and> log_limit w' = log_limit w \<and>
     pending w' fd = pending w fd \<and> (\<forall>fd' < next_fd w. fd' \<in> open_fds w' \<longleftrightarrow> fd' \<in> open_fds w) \<and>
     (\<forall>fd'. sent_on fd' (trace w') = sent_on fd' (trace w))"

definition served :: "config \<Rightarrow> int \<Rightarrow> world \<Rightarrow> world \<Rightarrow> bool" where
  "served a fd w w' \<longleftrightarrow> heap_ok w' \<and> live w \<subseteq> live w' \<and> next_fd w \<le> next_fd w' \<and> log_limit w' = log_limit w \<and>
     pending w' fd = pending w fd \<and> (\<forall>fd' < next_fd w. fd' \<in> open_fds w' \<longleftrightarrow> fd' \<in> open_fds w) \<and>
     (\<forall>fd'. fd' \<noteq> fd \<longrightarrow> sent_on fd' (trace w') = sent_on fd' (trace w)) \<and>
     (\<exists>s. an_answer a s \<and> sent_on fd (trace w') = sent_on fd (trace w) @ s)"

lemma kept_log [simp]: "kept fd w (w'\<lparr>log_out := l\<rparr>) = kept fd w w'" "kept fd (w\<lparr>log_out := l\<rparr>) w' = kept fd w w'"
  by (simp_all add: kept_def heap_ok_def)

lemma served_log [simp]: "served a fd w (w'\<lparr>log_out := l\<rparr>) = served a fd w w'"
  "served a fd (w\<lparr>log_out := l\<rparr>) w' = served a fd w w'"
  by (simp_all add: served_def heap_ok_def)

lemma kept_served: "kept fd w w1 \<Longrightarrow> served a fd w1 w' \<Longrightarrow> served a fd w w'"
  unfolding kept_def served_def by auto

lemma served_free:
  assumes "served a fd w w'" and "b \<in> live w"
  shows "b \<in> live w'" and "served a fd (w\<lparr>live := live w - {b}\<rparr>) (w'\<lparr>live := live w' - {b}\<rparr>)"
  using assms unfolding served_def by (auto simp: heap_ok_def)

lemma sends_only_served:
  assumes "sends_only fd (w\<lparr>n_calls := n\<rparr>) w'" and "live w' = live w" and "heap_ok w'"
    and "sent_on fd (trace w') = sent_on fd (trace w) @ s" and "an_answer a s"
  shows "served a fd w w'"
  using assms unfolding served_def sends_only_def by auto

text \<open>The error pages, and an error page after which a buffer is destroyed.\<close>

lemma wp_error_answer:
  assumes "server_ok E a" and "full_sends E" and "heap_ok w" and "0 < fuel"
    and "length message < 2 ^ 31" and "no_nul message" and "0 \<le> code" and "code < 1000"
    and known: "(nat code, message) \<in> set error_pages"
    and Q: "\<And>w'. served a fd w w' \<Longrightarrow> Q OK w'"
  shows "wp (response_error fuel fd a code message) Q E w"
proof -
  obtain n where n: "send_ret E (n_send w) = Some n" "2 ^ 64 \<le> n" using assms(2) unfolding full_sends_def by blast
  let ?page = "error_text a (nat code) message (date_at E (n_calls w))"
  have "length (common_text a (nat code) message (date_at E (n_calls w))) < 2 ^ 34"
    using assms(5,8) by (intro length_common_text [OF assms(1)]) simp_all
  moreover have "length (dec (length (error_body message))) \<le> 12"
    using assms(5) by (intro length_dec_le) (simp_all add: error_body_def)
  ultimately have "length ?page \<le> n" using n(2) assms(5) by (simp add: error_text_def error_body_def)
  then have take: "take n ?page = ?page" by simp
  have answer: "an_answer a ?page" by (rule error_page [OF known])
  show ?thesis
  proof (rule wp_response_error [OF assms(1,3,5-8,4)])
    fix w'
    assume s: "sent_state fd (take n (if (0::nat) = 0 then ?page
        else error_text a 500 ''Internal Server Error'' (date_at E (n_calls w + 0)))) (Suc 0) w w'"
      and leak: "leaks_buffer (live w) (live w')"
    then have "served a fd w w'"
      using answer by (auto simp: served_def sent_state_def leaks_buffer_def take)
    then show "Q (if (0::nat) = 0 then OK else ERROR) w'" using Q by simp
  qed (use n in auto)
qed

lemma wp_page:
  assumes "server_ok E a" and "full_sends E" and "heap_ok w" and "0 < fuel" and "\<And>w'. served a fd w w' \<Longrightarrow> Q OK w'"
  shows "wp (response_bad_request fuel fd a) Q E w" and "wp (response_request_too_long fuel fd a) Q E w"
    and "wp (response_not_found fuel fd a) Q E w" and "wp (response_not_implemented fuel fd a) Q E w"
    and "wp (response_internal_server_error fuel fd a) Q E w"
  unfolding response_bad_request_def response_request_too_long_def response_not_found_def
    response_not_implemented_def response_internal_server_error_def
  by (rule wp_error_answer [OF assms(1-4)]; simp add: assms(5) [simplified] error_pages_def)+

lemma wp_destroy_served:
  assumes h: "db_holds d s F (rest w) w" and s: "served a fd w w1"
    and Q: "\<And>w'. served a fd (w\<lparr>live := F\<rparr>) w' \<Longrightarrow> Q () w'"
  shows "wp (dynamic_buffer_destroy (Some d)) Q E w1"
proof (rule wp_dynamic_buffer_destroy [OF db_holds_frame [OF h]])
  let ?F = "live w1 - {sb_ptr d, buf_ptr d}"
  show "live w1 = insert (sb_ptr d) (insert (buf_ptr d) ?F)"
    using h s unfolding db_holds_def served_def by blast
  show "sb_ptr d \<notin> ?F" "buf_ptr d \<notin> ?F" by simp_all
  show "heap_ok w1" using s by (simp add: served_def)
  fix w'
  assume w': "live w' = ?F" "heap_ok w'" "rest w' = rest w1"
  have "F \<subseteq> ?F" using h s by (auto simp: db_holds_def served_def)
  then show "Q () w'" using w' rest_eqD [OF w'(3)] s by (intro Q) (auto simp: served_def)
qed

section \<open>Scripts\<close>

lemma db_holds_kept:
  assumes "db_holds d s (live w) (rest w) w1"
  shows "kept fd w (w1\<lparr>live := live w\<rparr>)"
  using db_holds_sel [OF assms] assms by (auto simp: kept_def db_holds_def heap_ok_def)

lemma keeps_below_kept: "keeps_below (next_fd w) w w' \<Longrightarrow> fd < next_fd w \<Longrightarrow> heap_ok w' \<Longrightarrow> live w \<subseteq> live w' \<Longrightarrow> kept fd w w'"
  by (simp add: keeps_below_def kept_def)

lemma wp_cgi_answer:
  assumes env: "server_ok E a" "full_sends E" and heap: "heap_ok w" and fd: "fd < next_fd w"
    and scripts: "scripts_end E n" "0 < n" "n \<le> fuel" "n < 2 ^ 62" and args: "readable args"
    and Q: "\<And>c w'. served a fd w w' \<Longrightarrow> c \<in> {OK, ERROR, NOT_FOUND, BAD_REQUEST} \<Longrightarrow> Q c w'"
  shows "wp (response_cgi fuel fd a args fn (Some e)) Q E w"
proof -
  have alloc: "alloc_ok E" using env(1) by (simp add: server_ok_def)
  have fuel: "0 < fuel" using scripts(2,3) by simp
  show ?thesis
    unfolding response_cgi_def wp_bind
  proof (rule wp_dynamic_buffer_ini [OF _ _ heap refl])
    fix d w1
    assume h0: "db_holds d [] (live w) (rest w) w1"
    have heap1: "heap_ok w1" using h0 by (simp add: db_holds_def)
    have h: "db_holds d [] (live w) (rest w1) w1" by (rule db_holds_world [OF h0]) simp_all
    note k = db_holds_kept [OF h0, of fd]
    have fail: "wp (bind (response_error fuel fd a code m) (\<lambda>_. bind (dynamic_buffer_destroy (Some d)) (\<lambda>_. return c))) Q E w2"
      if "db_holds d [] (live w) (rest w2) w2" "kept fd w (w2\<lparr>live := live w\<rparr>)"
        "length m < 2 ^ 31" "no_nul m" "0 \<le> code" "code < 1000" "(nat code, m) \<in> set error_pages"
        "c \<in> {OK, ERROR, NOT_FOUND, BAD_REQUEST}" for w2 code m c
      unfolding wp_bind
    proof (rule wp_error_answer [OF env _ fuel that(3-7)])
      show "heap_ok w2" using that(1) by (simp add: db_holds_def)
      fix w3
      assume "served a fd w2 w3"
      then show "wp (dynamic_buffer_destroy (Some d)) (\<lambda>_. wp (return c) Q E) E w3"
        by (rule wp_destroy_served [OF that(1)]) (unfold wp_return, intro Q kept_served [OF that(2)] that(8))
    qed
    have run: "wp (bind (execute_script fuel interp (cstr fn) args (script_timeout a)) (\<lambda>script_output. case script_output of
               None \<Rightarrow> bind (response_internal_server_error fuel fd a) (\<lambda>_.
                       bind (dynamic_buffer_destroy (Some d)) (\<lambda>_.
                       return ERROR))
             | Some script_output \<Rightarrow> cgi_send fuel fd a (Some d) (Some script_output))) Q E w1" for interp
      unfolding wp_bind
    proof (rule wp_execute_script [OF alloc heap1 scripts(1-3) _ args])
      fix r w2 dups
      assume below: "keeps_below (next_fd w1) w1 w2"
        and r: "script_result E dups interp (cstr fn) args (script_timeout a) (live w1) r w2"
      have fd1: "fd < next_fd w1" using fd db_holds_sel [OF h0] by simp
      have live: "live w1 = insert (sb_ptr d) (insert (buf_ptr d) (live w))" using h by (simp add: db_holds_def)
      show "wp (case r of
               None \<Rightarrow> bind (response_internal_server_error fuel fd a) (\<lambda>_.
                       bind (dynamic_buffer_destroy (Some d)) (\<lambda>_.
                       return ERROR))
             | Some script_output \<Rightarrow> cgi_send fuel fd a (Some d) (Some script_output)) Q E w2"
      proof (cases r)
        case None
        then have w2: "live w2 = live w1" "heap_ok w2" using r by (auto simp: script_result_def)
        have "kept fd w (w2\<lparr>live := live w\<rparr>)"
          using k keeps_below_kept [OF below fd1 w2(2)] w2(1) live by (auto simp: kept_def heap_ok_def)
        moreover have "db_holds d [] (live w) (rest w2) w2"
          by (rule db_holds_frame [OF h]) (use h live w2 in \<open>auto simp: db_holds_def\<close>)
        ultimately show ?thesis
          unfolding None option.case response_internal_server_error_def by (intro fail) (simp_all add: error_pages_def)
      next
        case (Some o')
        let ?out = "stream (script_child dups interp (cstr fn) (bytes args) (script_timeout a) E)"
        have o': "db_holds o' ?out (live w1) (rest w2) w2" using r Some by (simp add: script_result_def)
        have len: "length ?out < 2 ^ 62"
        proof -
          obtain cs where "script_child dups interp (cstr fn) (bytes args) (script_timeout a) E = pipe_bytes cs"
            "length (concat cs) < n"
            by (rule script_child_ends [OF scripts(1,2)])
          then show ?thesis using scripts(4) by simp
        qed
        have h2: "db_holds d [] (insert (sb_ptr o') (insert (buf_ptr o') (live w))) (rest w2) w2"
        proof (rule db_holds_frame [OF h])
          show "live w2 = insert (sb_ptr d) (insert (buf_ptr d) (insert (sb_ptr o') (insert (buf_ptr o') (live w))))"
            using o' live by (auto simp: db_holds_def)
        qed (use h o' live in \<open>auto simp: db_holds_def\<close>)
        have "kept fd w (w2\<lparr>live := live w\<rparr>)"
        proof -
          have "kept fd w1 w2" by (rule keeps_below_kept [OF below fd1]) (use o' in \<open>auto simp: db_holds_def\<close>)
          then show ?thesis using k live by (auto simp: kept_def heap_ok_def)
        qed
        note kept2 = kept_served [OF this]
        have "wp (cgi_send fuel fd a (Some d) (Some o')) Q E w2"
        proof (rule wp_cgi_send [OF env h2 o' _ _ len])
          fix w3
          assume w3: "live w3 = live w" "heap_ok w3" "sends_only fd (w2\<lparr>n_calls := Suc (n_calls w2)\<rparr>) w3"
            "sent_on fd (trace w3) = sent_on fd (trace w2) @ cgi_text a ?out (date_at E (n_calls w2))"
          have "served a fd (w2\<lparr>live := live w\<rparr>) w3"
            using w3(3) by (intro sends_only_served [OF _ _ w3(2) _ script_output, where n = "Suc (n_calls w2)"])
              (simp_all add: w3 sends_only_def)
          then show "Q OK w3" using kept2 Q by simp
        qed (use o' live in \<open>auto simp: db_holds_def\<close>)
        with Some show ?thesis by simp
      qed
    qed (use scripts in simp_all)
    show "wp (case Some d of
       None \<Rightarrow>
         bind (print_error ''failed to allocate memory for dynamic buffer'') (\<lambda>_.
         bind (response_internal_server_error fuel fd a) (\<lambda>_.
         return ERROR))
     | Some response \<Rightarrow>
         bind (asks (\<lambda>E. access_ok E (cstr fn))) (\<lambda>exists.
         if \<not> exists
         then bind (response_not_found fuel fd a) (\<lambda>_.
              bind (dynamic_buffer_destroy (Some response)) (\<lambda>_.
              return NOT_FOUND))
         else
           bind (lift (strcmp_eq (Some e) (Some ''.py''))) (\<lambda>py.
           bind (if py then return False else lift (strcmp_eq (Some e) (Some ''.php''))) (\<lambda>php.
           if \<not> py \<and> \<not> php
           then bind (response_not_implemented fuel fd a) (\<lambda>_.
                bind (dynamic_buffer_destroy (Some response)) (\<lambda>_.
                return BAD_REQUEST))
           else
             bind (if py then execute_python_script fuel (cstr fn) args (script_timeout a)
                   else execute_php_script fuel (cstr fn) args (script_timeout a)) (\<lambda>script_output.
             case script_output of
               None \<Rightarrow> bind (response_internal_server_error fuel fd a) (\<lambda>_.
                       bind (dynamic_buffer_destroy (Some response)) (\<lambda>_.
                       return ERROR))
             | Some script_output \<Rightarrow>
                 cgi_send fuel fd a (Some response) (Some script_output)))))) Q E w1"
      using run fail [OF h k]
      by (auto simp: strcmp_eq_def execute_python_script_def execute_php_script_def response_not_found_def
        response_not_implemented_def error_pages_def simp del: wp_case_option ERROR_def NOT_FOUND_def BAD_REQUEST_def)
  qed (use alloc in \<open>simp_all add: DEFAULT_INITIAL_CAPACITY_def\<close>)
qed

section \<open>Files\<close>

text \<open>Every file the server can open can also be examined, has a date, and is short enough for the fuel.\<close>

definition files_ok :: "env \<Rightarrow> nat \<Rightarrow> bool" where
  "files_ok E fuel \<longleftrightarrow> NUL \<in> set (fresh_bytes E 0 40) \<and> (\<forall>name f. file_at E name = Some f \<longrightarrow>
     2 * length f + 1 \<le> fuel \<and> length f < 2 ^ 63 \<and>
     (\<forall>k. \<exists>m. stat_of E k name = Some (int (length f), m) \<and> gmtime m \<noteq> None))"

lemma files_ok_stable:
  assumes "files_ok E fuel" and "file_at E name = Some f"
  obtains mtime where "stable_file E k name f mtime" and "2 * length f + 1 \<le> fuel" and "NUL \<in> set (fresh_bytes E 0 40)"
proof -
  obtain m where m: "stat_of E k name = Some (int (length f), m)" using assms unfolding files_ok_def by blast
  obtain m' where m': "stat_of E (Suc k) name = Some (int (length f), m')" "gmtime m' \<noteq> None"
    using assms unfolding files_ok_def by blast
  show thesis
    using assms m m' by (intro that [of m']) (auto simp: stable_file_def files_ok_def)
qed

lemma make_etag_total:
  assumes "str_data p \<noteq> None"
  obtains etag where "make_etag m p = Ret etag" and "length etag < 2 ^ 32"
  using assms by (auto simp: make_etag_def snprintf_bytes_def ETAG_SIZE_def)

lemma header_total:
  assumes "headers_ok r"
  obtains hdr where "request_get_header r (Some n) = Ret hdr" and "readable hdr"
proof -
  have "readable (case find (header_named r n) (take (num_headers r) (headers r)) of
      None \<Rightarrow> \<lparr>str_data = None, str_size = 0\<rparr>
    | Some h \<Rightarrow> slice_string (rq_buffer r) (hvalue h) (hvalue_len h))"
  proof (cases "find (header_named r n) (take (num_headers r) (headers r))")
    case (Some h)
    then have "h \<in> set (headers r)" by (auto simp: find_Some_iff in_set_conv_nth)
    then have "header_in (rq_buffer r) h" using assms by (simp add: headers_ok_def list_all_iff)
    with Some assms show ?thesis by (auto simp: header_in_def headers_ok_def intro!: slice_string_readable)
  qed (simp add: readable_def)
  then show thesis using request_get_header_eq [OF assms] by (intro that) auto
qed

lemma get_text_answer: "map_of content_types x = Some type \<Longrightarrow> an_answer a (get_text E a type tag same f k)"
  by (cases same) (auto simp: get_text_def intro!: unchanged whole_file dest!: map_of_SomeD intro: rev_image_eqI)

lemma wp_file_answer:
  assumes env: "server_ok E a" "full_sends E" and files: "files_ok E fuel" and heap: "heap_ok w" and b: "b \<in> live w"
    and path: "str_data (path r) \<noteq> None" and hs: "headers_ok r" and fuel: "0 < fuel"
    and Q: "\<And>c w'. served a fd (w\<lparr>live := live w - {b}\<rparr>) w' \<Longrightarrow> c \<in> {OK, ERROR} \<Longrightarrow> Q c w'"
  shows "wp (get_file fuel fd a r b fn (Some e)) Q E w"
proof -
  have alloc: "alloc_ok E" using env(1) by (simp add: server_ok_def)
  have heap': "heap_ok (w\<lparr>live := live w - {b}\<rparr>)" using heap by (simp add: heap_ok_def)
  show ?thesis
    unfolding get_file_def wp_bind
  proof (rule wp_dynamic_buffer_ini [OF _ _ heap refl])
    fix d w1
    assume h0: "db_holds d [] (live w) (rest w) w1"
    show "wp (case Some d of
         None \<Rightarrow> bind (print_error ''failed to allocate memory for dynamic buffer'') (\<lambda>_.
           bind (response_internal_server_error fuel fd a) (\<lambda>_. bind (free b) (\<lambda>_. return ERROR)))
       | Some db \<Rightarrow> bind (lift (get_content_type (Some e))) (\<lambda>content_type.
           if content_type = None
           then bind (print_error ''unrecognized content type for %s'') (\<lambda>_.
                bind (response_not_found fuel fd a) (\<lambda>_.
                bind (free b) (\<lambda>_. bind (dynamic_buffer_destroy (Some db)) (\<lambda>_. return ERROR))))
           else bind (print_debug ''%s requested (type %s)'') (\<lambda>_.
             bind (asks (\<lambda>E. file_at E (cstr fn))) (\<lambda>f. case f of
               None \<Rightarrow> bind (print_error ''can't open %s: %s'') (\<lambda>_.
                 bind (response_not_found fuel fd a) (\<lambda>_.
                 bind (free b) (\<lambda>_. bind (dynamic_buffer_destroy (Some db)) (\<lambda>_. return ERROR))))
             | Some f \<Rightarrow> get_opened fuel fd a r b fn content_type (Some db) f)))) Q E w1"
    proof -
      have live1: "live w1 = insert (sb_ptr d) (insert (buf_ptr d) (live w))" using h0 by (simp add: db_holds_def)
      have k: "kept fd (w\<lparr>live := live w - {b}\<rparr>) (w1\<lparr>live := live w - {b}\<rparr>)"
        using db_holds_kept [OF h0, of fd] heap' by (auto simp: kept_def heap_ok_def)
      have fail: "wp (response_not_found fuel fd a) (\<lambda>_. wp (free b) (\<lambda>_. wp (dynamic_buffer_destroy (Some d)) (\<lambda>_. Q ERROR) E) E) E (w1\<lparr>log_out := l\<rparr>)" for l
      proof (rule wp_page(3) [OF env])
        let ?w1 = "w1\<lparr>log_out := l, live := live w1 - {b}\<rparr>"
        show "heap_ok (w1\<lparr>log_out := l\<rparr>)" using h0 by (simp add: db_holds_def heap_ok_def)
        show "0 < fuel" using fuel .
        have h: "db_holds d [] (live w - {b}) (rest ?w1) ?w1"
          by (rule db_holds_frame [OF h0]) (use h0 b live1 in \<open>auto simp: db_holds_def heap_ok_def\<close>)
        fix w2
        assume s: "served a fd (w1\<lparr>log_out := l\<rparr>) w2"
        have "b \<in> live w2" "served a fd ?w1 (w2\<lparr>live := live w2 - {b}\<rparr>)"
          using served_free [OF s, of b] b live1 by simp_all
        moreover have "wp (dynamic_buffer_destroy (Some d)) (\<lambda>_. Q ERROR) E (w2\<lparr>live := live w2 - {b}\<rparr>)"
          by (rule wp_destroy_served [OF h calculation(2)], rule Q, rule kept_served [OF k], simp_all add: served_def heap_ok_def)
        ultimately show "wp (free b) (\<lambda>_. wp (dynamic_buffer_destroy (Some d)) (\<lambda>_. Q ERROR) E) E w2"
          by (simp add: wp_free)
      qed
      have opened: "wp (get_opened fuel fd a r b fn (Some type) (Some d) f) Q E (w1\<lparr>log_out := l\<rparr>)"
        if type: "map_of content_types (cstr e) = Some type" and f: "file_at E (cstr fn) = Some f" for type f l
      proof -
        let ?w1 = "w1\<lparr>log_out := l\<rparr>"
        obtain mtime where m: "stable_file E (n_calls ?w1) (cstr fn) f mtime" "2 * length f + 1 \<le> fuel" "NUL \<in> set (fresh_bytes E 0 40)"
          by (rule files_ok_stable [OF files f])
        obtain etag where etag: "make_etag mtime (path r) = Ret etag" "length etag < 2 ^ 32"
          by (rule make_etag_total [OF path])
        obtain hdr where hdr: "request_get_header r (Some ''If-None-Match'') = Ret hdr" "readable hdr"
          by (rule header_total [OF hs])
        have h: "db_holds d [] (live w) (rest ?w1) ?w1" by (rule db_holds_world [OF h0]) simp_all
        show ?thesis
        proof (rule wp_get_opened [OF env h b m(1) _ _ hdr etag m(3,2)])
          fix w2
          assume w2: "live w2 = live w - {b}" "heap_ok w2"
            "sent_on fd (trace w2) = sent_on fd (trace ?w1) @ get_text E a type (cstr etag) (bytes hdr = cstr etag) f (n_calls ?w1 + 2)"
            "sends_only fd (?w1\<lparr>n_calls := n_calls ?w1 + 3\<rparr>) w2"
          have "served a fd (w1\<lparr>live := live w - {b}\<rparr>) w2"
            using w2(3,4)
            by (intro sends_only_served [OF _ _ w2(2) _ get_text_answer [OF type], where n = "n_calls w1 + 3"])
              (auto simp: w2(1) sends_only_def)
          then show "Q OK w2" by (intro Q kept_served [OF k]) simp_all
        qed (use types_no_nul [OF type] in simp_all)
      qed
      show ?thesis
        using fail opened
        by (auto simp: get_content_type_eq wp_print wp_bind_fun wp_return_fun split: option.split
            simp del: ERROR_def)
    qed
  qed (use alloc in \<open>simp_all add: DEFAULT_INITIAL_CAPACITY_def\<close>)
qed

section \<open>Requests\<close>

text \<open>The block of the file name is freed after the answer.\<close>

lemma wp_free_served:
  assumes "served a fd (w\<lparr>n_malloc := n, live := insert b (live w)\<rparr>) w'" and "b \<notin> live w"
    and "\<And>w''. served a fd w w'' \<Longrightarrow> Q () w''"
  shows "wp (free b) Q E w'"
proof -
  have "b \<in> live w'" "served a fd (w\<lparr>n_malloc := n, live := live w\<rparr>) (w'\<lparr>live := live w' - {b}\<rparr>)"
    using served_free [OF assms(1), of b] assms(2) by simp_all
  then show ?thesis by (simp add: wp_free assms(3) served_def)
qed

lemma codes_in: "c \<in> {OK, ERROR} \<Longrightarrow> c \<in> {OK, ERROR, NOT_FOUND, BAD_REQUEST}"
  by blast

lemma wp_get_answer:
  assumes env: "server_ok E a" "full_sends E" and conf: "config_ok a" and files: "files_ok E fuel"
    and heap: "heap_ok w" and fd: "fd < next_fd w"
    and scripts: "scripts_end E n" "0 < n" "n \<le> fuel" "n < 2 ^ 62"
    and req: "readable (path r)" "str_data (path r) \<noteq> None" "headers_ok r" "readable (url_args r)"
    and Q: "\<And>c w'. served a fd w w' \<Longrightarrow> c \<in> {OK, ERROR, NOT_FOUND, BAD_REQUEST} \<Longrightarrow> Q c w'"
  shows "wp (response_get fuel fd a r) Q E w"
proof -
  have alloc: "alloc_ok E" using env(1) by (simp add: server_ok_def)
  have fuel: "0 < fuel" using scripts(2,3) by simp
  let ?b = "n_malloc w"
  let ?w1 = "w\<lparr>n_malloc := Suc ?b, live := insert ?b (live w)\<rparr>"
  have heap1: "heap_ok ?w1" using heap by (auto simp: heap_ok_def less_Suc_eq)
  have fresh: "?b \<notin> live w" using heap by (rule heap_ok_fresh)
  have fin: "wp (free ?b) (\<lambda>_. Q c) E w2"
    if "served a fd ?w1 w2" "c \<in> {OK, ERROR, NOT_FOUND, BAD_REQUEST}" for c w2
    by (rule wp_free_served [OF that(1) fresh], rule Q [OF _ that(2)])
  have page: "wp (response_not_implemented fuel fd a) (\<lambda>_. wp (free ?b) (\<lambda>_. Q ERROR) E) E (?w1\<lparr>log_out := l\<rparr>)" for l
    using heap1 by (intro wp_page(4) [OF env _ fuel] fin) (simp_all add: heap_ok_def)
  have cgi: "wp (response_cgi fuel fd a (url_args r) fn (Some e)) (\<lambda>c. wp (free ?b) (\<lambda>_. Q c) E) E ?w1" for fn e
    using fd by (intro wp_cgi_answer [OF env heap1 _ scripts req(4)] fin) simp_all
  have get_file: "wp (get_file fuel fd a r ?b fn (Some e)) Q E ?w1" for fn e
  proof (rule wp_file_answer [OF env files heap1 _ req(2,3) fuel])
    fix c w'
    assume s: "served a fd (?w1\<lparr>live := live ?w1 - {?b}\<rparr>) w'" and c: "c \<in> {OK, ERROR}"
    have "served a fd w w'" using s fresh by (simp add: served_def)
    then show "Q c w'" using codes_in [OF c] by (rule Q)
  qed simp
  show ?thesis
    unfolding response_get_def wp_bind
  proof (rule wp_get_file_name [OF alloc conf req(1,2)])
    fix fn
    show "wp (case Some (?b, fn) of
       None \<Rightarrow> bind (response_internal_server_error fuel fd a) (\<lambda>_. return ERROR)
     | Some (filename_block, filename) \<Rightarrow>
         let extension = find_extension filename in
         if extension = None
         then bind (print_info ''don't know what to do with directory %s'') (\<lambda>_.
              bind (response_not_implemented fuel fd a) (\<lambda>_.
              bind (free filename_block) (\<lambda>_.
              return ERROR)))
         else
           bind (lift (strcmp_eq extension (Some ''.py''))) (\<lambda>py.
           bind (lift (strcmp_eq extension (Some ''.php''))) (\<lambda>php.
           if py \<or> php
           then bind (response_cgi fuel fd a (url_args r) filename extension) (\<lambda>cgi_ret.
                bind (free filename_block) (\<lambda>_.
                return cgi_ret))
           else get_file fuel fd a r filename_block filename extension))) Q E ?w1"
      using page cgi [of fn] get_file [of fn]
      by (cases "find_extension fn") (simp_all add: strcmp_eq_def wp_print wp_bind_fun wp_return_fun del: ERROR_def)
  qed
qed

lemma wp_post_answer:
  assumes env: "server_ok E a" "full_sends E" and conf: "config_ok a"
    and heap: "heap_ok w" and fd: "fd < next_fd w"
    and scripts: "scripts_end E n" "0 < n" "n \<le> fuel" "n < 2 ^ 62"
    and req: "readable (path r)" "str_data (path r) \<noteq> None" "readable (body r)"
    and ext: "extension_of (file_name a (path r)) \<noteq> None"
    and Q: "\<And>c w'. served a fd w w' \<Longrightarrow> c \<in> {OK, ERROR, NOT_FOUND, BAD_REQUEST} \<Longrightarrow> Q c w'"
  shows "wp (response_post fuel fd a r) Q E w"
proof -
  have alloc: "alloc_ok E" using env(1) by (simp add: server_ok_def)
  let ?b = "n_malloc w"
  let ?w1 = "w\<lparr>n_malloc := Suc ?b, live := insert ?b (live w)\<rparr>"
  have heap1: "heap_ok ?w1" using heap by (auto simp: heap_ok_def less_Suc_eq)
  have fresh: "?b \<notin> live w" using heap by (rule heap_ok_fresh)
  have fin: "wp (free ?b) (\<lambda>_. Q c) E w2"
    if "served a fd ?w1 w2" "c \<in> {OK, ERROR, NOT_FOUND, BAD_REQUEST}" for c w2
    by (rule wp_free_served [OF that(1) fresh], rule Q [OF _ that(2)])
  have cgi: "wp (response_cgi fuel fd a (body r) fn (Some e)) (\<lambda>c. wp (free ?b) (\<lambda>_. Q c) E) E ?w1" for fn e
    using fd by (intro wp_cgi_answer [OF env heap1 _ scripts req(3)] fin) simp_all
  show ?thesis
    unfolding response_post_def wp_bind
  proof (rule wp_get_file_name [OF alloc conf req(1,2)])
    fix fn
    assume "cstr fn = file_name a (path r)"
    then obtain e where "find_extension fn = Some e" using find_extension_eq [of fn] ext by auto
    then show "wp (case Some (?b, fn) of
       None \<Rightarrow> bind (response_internal_server_error fuel fd a) (\<lambda>_. return ERROR)
     | Some (filename_block, filename) \<Rightarrow>
         let extension = find_extension filename in
         bind (response_cgi fuel fd a (body r) filename extension) (\<lambda>cgi_ret.
         bind (free filename_block) (\<lambda>_.
         return cgi_ret))) Q E ?w1"
      using cgi [of fn] by (simp add: wp_bind_fun wp_return_fun del: ERROR_def)
  qed
qed

text \<open>The buffer of the answer to \<open>OPTIONS\<close> is never destroyed when it was sent.\<close>

lemma wp_response_options:
  assumes env: "server_ok E a" "full_sends E" and heap: "heap_ok w"
    and Q: "\<And>w'. leaks_buffer (live w) (live w') \<Longrightarrow> heap_ok w' \<Longrightarrow> sends_only fd (w\<lparr>n_calls := Suc (n_calls w)\<rparr>) w' \<Longrightarrow>
      sent_on fd (trace w') = sent_on fd (trace w) @ options_text a (date_at E (n_calls w)) \<Longrightarrow> Q OK w'"
  shows "wp (response_options fuel fd a) Q E w"
proof -
  have alloc: "alloc_ok E" using env(1) by (simp add: server_ok_def)
  let ?R = "(rest w)\<lparr>n_calls := Suc (n_calls w)\<rparr>"
  let ?text = "options_text a (date_at E (n_calls w))"
  let ?ps = "[Text (Some (''Allow: GET, POST, OPTIONS'' @ CRLF)), Text (Some (''Content-Length: 0'' @ CRLF)),
    Text (Some (''Connection: keep-alive'' @ CRLF @ CRLF))]"
  let ?after = "\<lambda>db sent. if sent < (0 :: int)
         then bind (response_internal_server_error fuel fd a) (\<lambda>_.
              bind (dynamic_buffer_destroy db) (\<lambda>_.
              return ERROR))
         else return OK"
  let ?send = "\<lambda>db. bind (socket_send fd (dynamic_buffer_get_buffer db) (dynamic_buffer_get_size db)) (?after db)"
  have send: "wp (?send (Some d)) Q E w1" if h: "db_holds d ?text (live w) ?R w1" for d w1
    unfolding wp_bind
  proof (rule wp_send_all [OF h env(2)])
    fix r :: int and w2
    assume w2: "live w2 = live w1" "n_malloc w2 = n_malloc w1" "sends_only fd w1 w2"
      "sent_on fd (trace w2) = sent_on fd (trace w1) @ ?text" "0 \<le> r"
    have "leaks_buffer (live w) (live w2)" "heap_ok w2"
      using h w2(1,2) by (auto simp: leaks_buffer_def db_holds_def heap_ok_def)
    then have "Q OK w2"
      using w2(3,4) db_holds_sel [OF h] by (intro Q) (simp_all add: sends_only_def)
    moreover have "\<not> r < 0" using w2(5) by simp
    ultimately show "wp (?after (Some d) r) Q E w2" by (simp only: if_False wp_return)
  qed
  have append: "wp (append_all (Some d) ?ps) (\<lambda>db. wp (?send db) Q E) E w1"
    if h: "db_holds d ([] @ common_text a (nat 200) ''OK'' (date_at E (n_calls w))) (live w) ?R w1" for d w1
  proof (rule wp_append_all [OF alloc h])
    have "length (common_text a 200 ''OK'' (date_at E (n_calls w))) < 2 ^ 34"
      by (rule length_common_text [OF env(1)]) simp_all
    then show "length ([] @ common_text a (nat 200) ''OK'' (date_at E (n_calls w))) + weight ?ps < 2 ^ 64"
      by simp
  qed (use send in \<open>simp_all add: options_text_def\<close>)
  show ?thesis
    unfolding response_options_def wp_bind
  proof (rule wp_dynamic_buffer_ini [OF _ _ heap refl])
    fix d w1
    assume h0: "db_holds d [] (live w) (rest w) w1"
    have calls: "n_calls w1 = n_calls w" using db_holds_sel [OF h0] by simp
    have "wp (add_common_headers (Some d) a 200 ''OK'') (\<lambda>db. wp (append_all db ?ps) (\<lambda>db. wp (?send db) Q E) E) E w1"
      by (rule wp_add_common_headers [OF env(1) h0]) (use append in \<open>simp_all add: calls\<close>)
    then show "wp (case Some d of
       None \<Rightarrow>
         bind (print_error ''failed to allocate memory for dynamic buffer'') (\<lambda>_.
         bind (response_internal_server_error fuel fd a) (\<lambda>_.
         return ERROR))
     | Some db \<Rightarrow>
         bind (add_common_headers (Some db) a 200 ''OK'') (\<lambda>db.
         bind (append_all db ?ps) ?send)) Q E w1"
      by (simp add: wp_bind_fun)
  qed (use alloc in \<open>simp_all add: DEFAULT_INITIAL_CAPACITY_def\<close>)
qed

lemma wp_options_answer:
  assumes "server_ok E a" and "full_sends E" and "heap_ok w" and Q: "\<And>w'. served a fd w w' \<Longrightarrow> Q OK w'"
  shows "wp (response_options fuel fd a) Q E w"
proof (rule wp_response_options [OF assms(1-3)])
  fix w'
  assume w': "leaks_buffer (live w) (live w')" "heap_ok w'" "sends_only fd (w\<lparr>n_calls := Suc (n_calls w)\<rparr>) w'"
    "sent_on fd (trace w') = sent_on fd (trace w) @ options_text a (date_at E (n_calls w))"
  then have "served a fd w w'"
    using an_answer.options unfolding served_def sends_only_def leaks_buffer_def by auto
  then show "Q OK w'" by (rule Q)
qed

end
