(* ===== verification/Response_Properties.thy ===== *)
theory Response_Properties
  imports Response_Total
begin

text \<open>
  The properties of src/response.c: the bytes each answer consists of, what it leaves
  allocated, and the cases in which a function does not return or leaves the behaviour C
  defines.
\<close>

section \<open>A configuration and a request for the witnesses\<close>

definition demo_config :: config where
  "demo_config = \<lparr>config_block = 50, signature_block = None, base_path_block = None, default_path_block = None,
     signature = Some ''rask'', base_path = Some ''/w'', default_path = Some ''/i.html'', max_connections = 8,
     listen_port = 80, log_priority = 6, script_timeout = 5, socket_timeout = 3\<rparr>"

lemma demo_epoch: "civil_of_days 0 = (1970, 0, 1)"
  by code_simp

lemma demo_gmtime: "gmtime 0 = Some \<lparr>tm_sec = 0, tm_min = 0, tm_hour = 0, tm_mday = 1, tm_mon = 0, tm_year = 1970, tm_wday = 4\<rparr>"
  by (simp add: gmtime_def demo_epoch)

lemma demo_server_ok: "server_ok demo_env demo_config"
  by (simp add: server_ok_def clock_ok_def demo_alloc_ok demo_gmtime demo_config_def)

lemma demo_config_ok: "config_ok demo_config"
  by (simp add: config_ok_def demo_config_def)

lemma demo_full_sends: "full_sends demo_env"
  by (simp add: full_sends_def)

text \<open>The request after \<open>GET /a.txt\<close> was read and accepted.\<close>

definition demo_get :: request where
  "demo_get = demo_parsed\<lparr>path := \<lparr>str_data = Some (drop 4 (rq_buffer demo_parsed)), str_size = 6\<rparr>\<rparr>"

lemma demo_get_path: "readable (path demo_get)" "bytes (path demo_get) = ''/a.txt''" "str_data (path demo_get) \<noteq> None"
  by (simp_all add: demo_get_def demo_parsed_def demo_text_def readable_def bytes_def)

lemma demo_file_name: "file_name demo_config (path demo_get) = ''/w/a.txt''"
  using demo_get_path by (simp add: file_name_def demo_config_def)

section \<open>Error pages\<close>

text \<open>C18: an error page is sent with its own length: the client receives the status line, the date, the
  server, the type, a \<open>Content-Length\<close> equal to the length of the body, \<open>Connection: close\<close>, and the body.
  The page that is sent is the one asked for when the first \<open>send\<close> succeeds (result \<open>OK\<close>), and the page of
  \<open>response_internal_server_error\<close> when \<open>k\<close> of them were refused before (result \<open>ERROR\<close>). In every case the
  two blocks of its buffer are never given back.\<close>

theorem error_page_sent:
  assumes "server_ok E a" and "heap_ok w" and "length message < 2 ^ 31" and "no_nul message"
    and "0 \<le> code" and "code < 1000" and "k < calls" and "\<forall>i<k. send_ret E (n_send w + i) = None"
    and "send_ret E (n_send w + k) = Some n" and "2 ^ 63 \<le> n"
  shows "\<exists>w'. response_error calls fd a code message E w = Ret (if k = 0 then OK else ERROR, w') \<and>
    sent_on fd (trace w') = sent_on fd (trace w) @
      (if k = 0 then error_text a (nat code) message (date_at E (n_calls w))
       else error_text a 500 ''Internal Server Error'' (date_at E (n_calls w + k))) \<and>
    leaks_buffer (live w) (live w')"
proof -
  let ?page = "if k = 0 then error_text a (nat code) message (date_at E (n_calls w))
       else error_text a 500 ''Internal Server Error'' (date_at E (n_calls w + k))"
  have small: "length (error_text a c m (date_at E j)) < 2 ^ 36" if "length m < 2 ^ 31" "c < 1000" for c m j
  proof -
    have "length (common_text a c m (date_at E j)) < 2 ^ 34"
      using that by (intro length_common_text [OF assms(1)]) simp_all
    moreover have "length (dec (length (error_body m))) \<le> 12"
      using that by (intro length_dec_le) (simp_all add: error_body_def)
    ultimately show ?thesis using that by (simp add: error_text_def error_body_def)
  qed
  have "length ?page < 2 ^ 36" using small assms(3,5,6) by simp
  then have all: "take n ?page = ?page" using assms(10) by simp
  have "wp (response_error calls fd a code message) (\<lambda>r w'. r = (if k = 0 then OK else ERROR) \<and>
    sent_on fd (trace w') = sent_on fd (trace w) @ ?page \<and> leaks_buffer (live w) (live w')) E w"
  proof (rule wp_response_error [OF assms(1-9)])
    fix w'
    assume "sent_state fd (take n ?page) (Suc k) w w'" and "leaks_buffer (live w) (live w')"
    then show "(if k = 0 then OK else ERROR) = (if k = 0 then OK else ERROR) \<and>
      sent_on fd (trace w') = sent_on fd (trace w) @ ?page \<and> leaks_buffer (live w) (live w')"
      unfolding all by (simp add: sent_state_def)
  qed
  then show ?thesis by (elim wpE) auto
qed

theorem error_page_sent_witness:
  "\<exists>w'. response_error 1 7 demo_config 404 ''Not Found'' demo_env demo_world = Ret (OK, w') \<and>
     sent_on 7 (trace w') = error_text demo_config 404 ''Not Found'' (date_at demo_env 0) \<and> leaks_buffer {} (live w')"
  using error_page_sent [OF demo_server_ok demo_heap_ok, where message = "''Not Found''" and code = 404 and k = 0
      and calls = 1 and n = "2 ^ 64" and fd = 7] by simp

text \<open>C37: when the connection is gone and every \<open>send\<close> is refused, \<open>_response_error\<close> and
  \<open>response_internal_server_error\<close> call each other for ever: no bound on the calls is enough.\<close>

theorem error_page_recursion_unbounded:
  assumes "server_ok E a" and "heap_ok w" and "length message < 2 ^ 31" and "no_nul message"
    and "0 \<le> code" and "code < 1000" and "\<forall>i. send_ret E (n_send w + i) = None"
  shows "response_error calls fd a code message E w = Unfinished"
  using assms by (rule response_error_never_returns)

lemma refused_server_ok: "server_ok (demo_env\<lparr>send_ret := (\<lambda>k. None)\<rparr>) demo_config"
  by (simp add: server_ok_def clock_ok_def alloc_ok_def demo_gmtime demo_config_def)

theorem error_page_recursion_unbounded_witness:
  "response_error 1000 7 demo_config 400 ''Bad Request'' (demo_env\<lparr>send_ret := (\<lambda>k. None)\<rparr>) demo_world = Unfinished"
  by (rule error_page_recursion_unbounded [OF refused_server_ok demo_heap_ok]) simp_all

section \<open>Names of files\<close>

text \<open>\<open>_get_filename\<close> returns the base path followed by the path of the request, or by the default path
  when the path is exactly a slash; nothing is put between the two.\<close>

theorem filename_is_base_and_path:
  assumes "alloc_ok E" and "readable p" and "str_data p \<noteq> None" and "no_nul (bytes p)"
    and "base_path a = Some b" and "default_path a = Some d" and "length b < 2 ^ 64" and "length d < 2 ^ 64"
  shows "\<exists>fn w'. get_filename p a E w = Ret (Some (n_malloc w, fn), w') \<and>
    cstr fn = cstr b @ (if bytes p = ''/'' then cstr d else bytes p) \<and> live w' = insert (n_malloc w) (live w)"
proof -
  have "wp (get_filename p a) (\<lambda>r w'. \<exists>fn. r = Some (n_malloc w, fn) \<and>
      cstr fn = cstr b @ (if bytes p = ''/'' then cstr d else bytes p) \<and> live w' = insert (n_malloc w) (live w)) E w"
    using assms(1,4) by (intro wp_get_filename [OF _ assms(2,3,5,7,6,8)]) (auto simp: file_name_def assms(5,6))
  then show ?thesis by (elim wpE) auto
qed

theorem filename_is_base_and_path_witness:
  "\<exists>fn w'. get_filename (path demo_get) demo_config demo_env demo_world = Ret (Some (0, fn), w') \<and> cstr fn = ''/w/a.txt''"
  using filename_is_base_and_path [OF demo_alloc_ok demo_get_path(1,3), where a = demo_config and b = "''/w''"
      and d = "''/i.html''" and w = demo_world] demo_get_path(2)
  by (auto simp: demo_config_def)

text \<open>\<open>_find_extension\<close> returns the part of the whole name from its last dot on, and NULL when there is no
  dot; the dot may be in a directory of the name, or in the base path.\<close>

lemma extension_from_last_dot:
  "(case find_extension fn of
      None \<Rightarrow> CHR ''.'' \<notin> set (cstr fn)
    | Some e \<Rightarrow> \<exists>u v. cstr fn = u @ ''.'' @ v \<and> CHR ''.'' \<notin> set v \<and> cstr e = ''.'' @ v)"
proof (cases "CHR ''.'' \<in> set (cstr fn)")
  case True
  then show ?thesis using find_extension_loop_dot [OF True, of None] by (auto simp: find_extension_def)
next
  case False
  then show ?thesis by (simp add: find_extension_def find_extension_loop_no_dot)
qed

text \<open>\<open>_get_content_type\<close> knows exactly the thirteen extensions of its chain of comparisons, in lower
  case, and answers NULL for every other one.\<close>

lemma content_type_table:
  "get_content_type (Some e) = Ret (map_of content_types (cstr e)) \<and> distinct (map fst content_types)"
  by (simp add: get_content_type_eq content_types_def)

section \<open>Files\<close>

lemma cstr_take: "cstr (take n s) = take n (cstr s)"
proof (induction s arbitrary: n)
  case (Cons c s)
  then show ?case by (cases n) auto
qed simp

lemma no_nul_cstr_eq: "no_nul (take n s) \<Longrightarrow> take n (cstr s) = take n s"
  using cstr_take [of n s] by simp

lemma make_etag_eq:
  assumes "readable p" and "str_data p \<noteq> None" and "no_nul (bytes p)"
  shows "\<exists>etag. make_etag m p = Ret etag \<and> length etag < 2 ^ 32 \<and> cstr etag = take 99 (dec_int m @ bytes p)"
proof -
  obtain s where s: "str_data p = Some s" using assms(2) by auto
  let ?t = "dec_int m @ bytes p"
  have e: "make_etag m p = Ret (snprintf_bytes ETAG_SIZE ?t)"
    using no_nul_cstr_eq [of "unat (str_size p)" s] assms(3) s by (simp add: make_etag_def bytes_def)
  have c: "cstr (snprintf_bytes ETAG_SIZE ?t) = take 99 ?t"
    using no_nul_take [of ?t 99] assms(3) by (simp add: snprintf_bytes_def ETAG_SIZE_def cstr_append_no_nul del: take_append)
  show ?thesis
    using e c by (intro exI [of _ "snprintf_bytes ETAG_SIZE ?t"]) (simp add: snprintf_bytes_def ETAG_SIZE_def)
qed

text \<open>C4: for a file of a known type that does not change while it is served, \<open>response_get\<close> sends exactly
  one response, however the buffer cuts it into pieces: the headers with the length of the file, the entity
  tag made of the time of the last change and the path, and the whole file; or the short answer 304, when the
  client's \<open>If-None-Match\<close> is that tag. Where the date of the last change should be there is what the array
  on the stack held, because the date does not fit it. Nothing stays allocated, and nothing is sent to any
  other descriptor. One chunk more than twice the bytes of the file is enough fuel.\<close>

theorem get_sends_the_file:
  assumes "server_ok E a" and "config_ok a" and "full_sends E" and "heap_ok w"
    and "readable (path r)" and "str_data (path r) \<noteq> None" and "no_nul (bytes (path r))"
    and "extension_of (file_name a (path r)) = Some x" and "map_of content_types x = Some type"
    and "stable_file E (n_calls w) (file_name a (path r)) f mtime"
    and "request_get_header r (Some ''If-None-Match'') = Ret hdr" and "readable hdr"
    and "NUL \<in> set (fresh_bytes E 0 40)" and "2 * length f + 1 \<le> fuel"
  shows "\<exists>w'. response_get fuel fd a r E w = Ret (OK, w') \<and>
    sent_on fd (trace w') = sent_on fd (trace w) @
      (if bytes hdr = take 99 (dec_int mtime @ bytes (path r))
       then common_text a 304 ''Not Modified'' (date_at E (n_calls w + 2)) @
         CRLF @ ''Connection: keep-alive'' @ CRLF @ CRLF
       else common_text a 200 ''OK'' (date_at E (n_calls w + 2)) @
         ''Content-Type: '' @ type @ ''; charset=UTF-8'' @ CRLF @
         ''ETag: '' @ take 99 (dec_int mtime @ bytes (path r)) @ CRLF @
         ''Content-Length: '' @ dec (length f) @ CRLF @ cstr (fresh_bytes E 0 40) @
         ''Connection: keep-alive'' @ CRLF @ CRLF @ f) \<and>
    live w' = live w \<and> (\<forall>fd'. fd' \<noteq> fd \<longrightarrow> sent_on fd' (trace w') = sent_on fd' (trace w))"
proof -
  obtain etag where etag: "make_etag mtime (path r) = Ret etag" "length etag < 2 ^ 32"
    and tag: "cstr etag = take 99 (dec_int mtime @ bytes (path r))"
    using make_etag_eq [OF assms(5-7)] by blast
  have "wp (response_get fuel fd a r) (\<lambda>c w'. c = OK \<and> sent_on fd (trace w') = sent_on fd (trace w) @
      get_text E a type (cstr etag) (bytes hdr = cstr etag) f (n_calls w + 2) \<and> live w' = live w \<and>
      (\<forall>fd'. fd' \<noteq> fd \<longrightarrow> sent_on fd' (trace w') = sent_on fd' (trace w))) E w"
    by (rule wp_response_get_file [OF assms(1-6,8-12) etag assms(13,14)]) (simp add: sends_only_def)
  then obtain w' where "response_get fuel fd a r E w = Ret (OK, w')" "live w' = live w"
    "\<forall>fd'. fd' \<noteq> fd \<longrightarrow> sent_on fd' (trace w') = sent_on fd' (trace w)"
    and s: "sent_on fd (trace w') = sent_on fd (trace w) @
      get_text E a type (cstr etag) (bytes hdr = cstr etag) f (n_calls w + 2)"
    by (elim wpE) auto
  then show ?thesis
    by (intro exI [of _ w']) (simp add: get_text_def not_modified_text_def file_text_def tag)
qed

lemma demo_stable: "stable_file demo_env 0 ''/w/a.txt'' ''hi'' 0"
  by (simp add: stable_file_def demo_gmtime)

lemma demo_no_header: "request_get_header demo_get (Some ''If-None-Match'') = Ret \<lparr>str_data = None, str_size = 0\<rparr>"
proof -
  have "headers_ok demo_get" using demo_parsed_headers_ok by (simp add: demo_get_def headers_ok_def)
  then show ?thesis
    by (simp add: request_get_header_eq demo_get_def demo_parsed_def header_named_def slice_def demo_header_def demo_text_def)
qed

lemma demo_junk: "NUL \<in> set (fresh_bytes demo_env 0 40)" "cstr (fresh_bytes demo_env 0 40) = ''????''"
  by (simp_all add: fresh_bytes_def upt_rec)

theorem get_sends_the_file_witness:
  "\<exists>w'. response_get 5 7 demo_config demo_get demo_env demo_world = Ret (OK, w') \<and>
     sent_on 7 (trace w') = common_text demo_config 200 ''OK'' (date_at demo_env 2) @
         ''Content-Type: text/plain; charset=UTF-8'' @ CRLF @ ''ETag: 0/a.txt'' @ CRLF @
         ''Content-Length: 2'' @ CRLF @ ''????'' @ ''Connection: keep-alive'' @ CRLF @ CRLF @ ''hi''"
proof -
  have path: "no_nul (bytes (path demo_get))" using demo_get_path(2) by simp
  have ext: "extension_of (file_name demo_config (path demo_get)) = Some ''.txt''"
    using extension_of_split [of "''txt''" "''/w/a''"] by (simp add: demo_file_name)
  have type: "map_of content_types ''.txt'' = Some ''text/plain''" by (simp add: content_types_def)
  have stable: "stable_file demo_env (n_calls demo_world) (file_name demo_config (path demo_get)) ''hi'' 0"
    using demo_stable by (simp add: demo_file_name)
  have hdr: "readable \<lparr>str_data = None, str_size = 0\<rparr>" by (simp add: readable_def)
  have zero: "dec_int 0 = ''0''" and two: "dec (Suc (Suc 0)) = ''2''" by code_simp+
  have tag: "take 99 (dec_int 0 @ bytes (path demo_get)) = ''0/a.txt''"
    using demo_get_path(2) by (simp add: zero)
  have fuel: "2 * length ''hi'' + 1 \<le> 5" by simp
  show ?thesis
    by (rule ex_forward [OF get_sends_the_file [OF demo_server_ok demo_config_ok demo_full_sends demo_heap_ok
      demo_get_path(1,3) path ext type stable demo_no_header hdr demo_junk(1) fuel, where fd = 7]],
      unfold tag demo_junk(2)) (simp add: two bytes_def numeral_2_eq_2)
qed

section \<open>Scripts\<close>

text \<open>The part that \<open>GET\<close> and \<open>POST\<close> share: run the script, answer, and give back the file name.\<close>

lemma wp_answer_script:
  assumes env: "server_ok E a" "full_sends E" "calls_ok E" and heap: "heap_ok w"
    and scripts: "scripts_end E n" "0 < n" "n \<le> fuel" "n < 2 ^ 62" and args: "readable args"
    and e: "find_extension fn = Some e" "extension_of (cstr fn) = Some x" "x = ''.py'' \<or> x = ''.php''"
    and access: "access_ok E (cstr fn)"
    and Q: "\<And>w' k. live w' = live w \<Longrightarrow>
      (\<And>fd'. sent_on fd' (trace w') = sent_on fd' (trace w) @
        (if fd' = fd then cgi_text a (script_output_of E a x (cstr fn) (bytes args)) (date_at E k) else [])) \<Longrightarrow> Q OK w'"
  shows "wp (response_cgi fuel fd a args fn (Some e)) (\<lambda>c. wp (free (n_malloc w)) (\<lambda>_. Q c) E) E
    (w\<lparr>n_malloc := Suc (n_malloc w), live := insert (n_malloc w) (live w)\<rparr>)"
proof (rule wp_response_cgi [OF env _ scripts args _ e(3) access])
  show "heap_ok (w\<lparr>n_malloc := Suc (n_malloc w), live := insert (n_malloc w) (live w)\<rparr>)"
    using heap by (auto simp: heap_ok_def less_Suc_eq)
  show "cstr e = x" using find_extension_eq [of fn] e(1,2) by simp
  have fresh: "n_malloc w \<notin> live w" using heap by (rule heap_ok_fresh)
  fix w' :: world and k :: nat
  assume "live w' = live (w\<lparr>n_malloc := Suc (n_malloc w), live := insert (n_malloc w) (live w)\<rparr>)"
    and "\<And>fd'. sent_on fd' (trace w') = sent_on fd' (trace (w\<lparr>n_malloc := Suc (n_malloc w), live := insert (n_malloc w) (live w)\<rparr>)) @
        (if fd' = fd then cgi_text a (script_output_of E a x (cstr fn) (bytes args)) (date_at E k) else [])"
  with fresh have "n_malloc w \<in> live w'" and "Q OK (w'\<lparr>live := live w' - {n_malloc w}\<rparr>)"
    by (simp, intro Q [where k = k]) simp_all
  then show "wp (free (n_malloc w)) (\<lambda>_. Q OK) E w'" by (simp add: wp_simps)
qed

text \<open>C15: a request for an existing script is answered with the output of the script: \<open>GET\<close> gives it the arguments of the
  URL, \<open>POST\<close> the body. The client receives one answer with all of the output and its length, nobody else
  receives anything, and nothing stays allocated.\<close>

theorem script_output_is_the_answer:
  assumes "server_ok E a" and "full_sends E" and "calls_ok E" and "config_ok a" and "heap_ok w"
    and "scripts_end E n" and "0 < n" and "n \<le> fuel" and "n < 2 ^ 62"
    and "readable (path r)" and "str_data (path r) \<noteq> None" and "readable (url_args r)" and "readable (body r)"
    and "extension_of (file_name a (path r)) = Some x" and "x = ''.py'' \<or> x = ''.php''"
    and "access_ok E (file_name a (path r))"
  shows "(\<exists>w' k. response_get fuel fd a r E w = Ret (OK, w') \<and> live w' = live w \<and>
      (\<forall>fd'. sent_on fd' (trace w') = sent_on fd' (trace w) @ (if fd' = fd
         then cgi_text a (script_output_of E a x (file_name a (path r)) (bytes (url_args r))) (date_at E k) else []))) \<and>
    (\<exists>w' k. response_post fuel fd a r E w = Ret (OK, w') \<and> live w' = live w \<and>
      (\<forall>fd'. sent_on fd' (trace w') = sent_on fd' (trace w) @ (if fd' = fd
         then cgi_text a (script_output_of E a x (file_name a (path r)) (bytes (body r))) (date_at E k) else [])))"
proof -
  have alloc: "alloc_ok E" using assms(1) by (simp add: server_ok_def)
  let ?done = "\<lambda>args c w'. c = OK \<and> live w' = live w \<and> (\<exists>k. \<forall>fd'. sent_on fd' (trace w') = sent_on fd' (trace w) @ (if fd' = fd
    then cgi_text a (script_output_of E a x (file_name a (path r)) (bytes args)) (date_at E k) else []))"
  have run: "\<exists>e. find_extension fn = Some e \<and> cstr e = x \<and>
      wp (response_cgi fuel fd a args fn (Some e)) (\<lambda>c. wp (free (n_malloc w)) (\<lambda>_. ?done args c) E) E
        (w\<lparr>n_malloc := Suc (n_malloc w), live := insert (n_malloc w) (live w)\<rparr>)"
    if name: "cstr fn = file_name a (path r)" and args: "readable args" for fn args
  proof -
    obtain e where e: "find_extension fn = Some e" "cstr e = x"
      using find_extension_eq [of fn] assms(14) unfolding name by auto
    show ?thesis
      by (intro exI [of _ e] conjI e wp_answer_script [OF assms(1-3,5-9) args e(1) _ assms(15)])
        (use name assms(14,16) in auto)
  qed
  have "wp (response_get fuel fd a r) (?done (url_args r)) E w"
    unfolding response_get_def wp_bind
  proof (rule wp_get_file_name [OF alloc assms(4,10,11)])
    fix fn
    assume "cstr fn = file_name a (path r)"
    from run [OF this assms(12)] assms(15) show "wp (case Some (n_malloc w, fn) of
       None \<Rightarrow> bind (response_internal_server_error fuel fd a) (\<lambda>_. return ERROR)
     | Some (filename_block, filename) \<Rightarrow>
         let extension = find_extension filename in
         if extension = None
         then bind (print_info ''don't know what to do with directory %s'') (\<lambda>_.
              bind (response_not_implemented fuel fd a) (\<lambda>_.
              bind (free filename_block) (\<lambda>_.
              return ERROR)))
         else
           bind (lift (strcmp_eq extension (Some ''.py''))) (\<lambda>py.
           bind (lift (strcmp_eq extension (Some ''.php''))) (\<lambda>php.
           if py \<or> php
           then bind (response_cgi fuel fd a (url_args r) filename extension) (\<lambda>cgi_ret.
                bind (free filename_block) (\<lambda>_.
                return cgi_ret))
           else get_file fuel fd a r filename_block filename extension))) (?done (url_args r)) E
        (w\<lparr>n_malloc := Suc (n_malloc w), live := insert (n_malloc w) (live w)\<rparr>)"
      by (elim exE conjE) (auto simp: strcmp_eq_def wp_bind_fun wp_return_fun simp del: ERROR_def)
  qed
  moreover have "wp (response_post fuel fd a r) (?done (body r)) E w"
    unfolding response_post_def wp_bind
  proof (rule wp_get_file_name [OF alloc assms(4,10,11)])
    fix fn
    assume "cstr fn = file_name a (path r)"
    from run [OF this assms(13)] show "wp (case Some (n_malloc w, fn) of
       None \<Rightarrow> bind (response_internal_server_error fuel fd a) (\<lambda>_. return ERROR)
     | Some (filename_block, filename) \<Rightarrow>
         let extension = find_extension filename in
         bind (response_cgi fuel fd a (body r) filename extension) (\<lambda>cgi_ret.
         bind (free filename_block) (\<lambda>_.
         return cgi_ret))) (?done (body r)) E
        (w\<lparr>n_malloc := Suc (n_malloc w), live := insert (n_malloc w) (live w)\<rparr>)"
      by (elim exE conjE) (simp add: wp_bind_fun wp_return_fun del: ERROR_def)
  qed
  ultimately show ?thesis by (elim wpE) blast
qed

definition demo_script :: request where
  "demo_script = demo_get\<lparr>path := \<lparr>str_data = Some ''/a.py HTTP/1.1'', str_size = 5\<rparr>,
     url_args := \<lparr>str_data = Some ''q=1'', str_size = 3\<rparr>, body := \<lparr>str_data = Some ''x=1'', str_size = 3\<rparr>\<rparr>"

theorem script_output_is_the_answer_witness:
  "(\<exists>w' k. response_get 8 7 demo_config demo_script demo_env demo_world = Ret (OK, w') \<and>
      sent_on 7 (trace w') = cgi_text demo_config ''ok'' (date_at demo_env k)) \<and>
   (\<exists>w' k. response_post 8 7 demo_config demo_script demo_env demo_world = Ret (OK, w') \<and>
      sent_on 7 (trace w') = cgi_text demo_config ''ok'' (date_at demo_env k))"
proof -
  have r: "readable (path demo_script)" "str_data (path demo_script) \<noteq> None" "readable (url_args demo_script)"
    "readable (body demo_script)" "bytes (path demo_script) = ''/a.py''"
    by (simp_all add: demo_script_def readable_def bytes_def)
  have name: "file_name demo_config (path demo_script) = ''/w/a.py''"
    using r(5) by (simp add: file_name_def demo_config_def)
  have ext: "extension_of (file_name demo_config (path demo_script)) = Some ''.py''"
    using extension_of_split [of "''py''" "''/w/a''"] by (simp add: name)
  have out: "script_output_of demo_env demo_config x f s = ''ok''" for x f s by (simp add: script_output_of_def)
  have access: "access_ok demo_env (file_name demo_config (path demo_script))" by simp
  show ?thesis
    using script_output_is_the_answer [OF demo_server_ok demo_full_sends demo_calls_ok demo_config_ok demo_heap_ok
      demo_scripts_end _ _ _ r(1-4) ext _ access, of 8 7] unfolding out by (auto dest!: spec [of _ 7])
qed

end
