(* ===== verification/Connection_Handler.thy ===== *)
theory Connection_Handler
  imports Response_Properties
begin

text \<open>
  One request of a connection, src/connection_handler.c: set the time limit of the socket, read and parse
  the request, answer it. The properties compose the request and response theories: whatever a client
  sends, as long as it ends its side at some time, the handler returns, and every request is answered by
  exactly one response on the client's descriptor.
\<close>

section \<open>The code\<close>

datatype http_method = GET | POST | OPTIONS | UNKNOWN

definition get_method :: "request \<Rightarrow> http_method prog" where
  "get_method request =
     bind (lift (string_is_equal_to (rq_method request) (Some ''GET''))) (\<lambda>b. if b then return GET else
     bind (lift (string_is_equal_to (rq_method request) (Some ''POST''))) (\<lambda>b. if b then return POST else
     bind (lift (string_is_equal_to (rq_method request) (Some ''OPTIONS''))) (\<lambda>b. if b then return OPTIONS else
     bind (print_warning ''method not implemented'') (\<lambda>_. return UNKNOWN))))"

text \<open>The request on the stack of \<open>connection_handler\<close>: an array that holds what the memory held. The other
  fields are stored before they are read.\<close>

definition stack_request :: "env \<Rightarrow> request" where
  "stack_request E = \<lparr>rq_buffer = fresh_bytes E 0 MAX_BUFFER, len_buffer = 0, old_len_buffer = 0,
     rq_method = \<lparr>str_data = None, str_size = 0\<rparr>, path = \<lparr>str_data = None, str_size = 0\<rparr>,
     body = \<lparr>str_data = None, str_size = 0\<rparr>, url_args = \<lparr>str_data = None, str_size = 0\<rparr>,
     minor_version = 0, headers = [], num_headers = 0\<rparr>"

definition connection_handler :: "nat \<Rightarrow> int \<Rightarrow> config \<Rightarrow> int prog" where
  "connection_handler fuel client_fd server_attrs =
     bind (socket_set_timeout client_fd (socket_timeout server_attrs)) (\<lambda>_.
     bind (asks stack_request) (\<lambda>request.
     bind (request_process fuel fuel request client_fd) (\<lambda>(response_code, request).
     if response_code < 0
     then if response_code = BAD_REQUEST then response_bad_request fuel client_fd server_attrs
       else if response_code = REQUEST_TOO_LONG then response_request_too_long fuel client_fd server_attrs
       else return response_code
     else bind (get_method request) (\<lambda>method.
       if method = UNKNOWN then response_not_implemented fuel client_fd server_attrs
       else if method = GET then response_get fuel client_fd server_attrs request
       else if method = POST then response_post fuel client_fd server_attrs request
       else response_options fuel client_fd server_attrs))))"

section \<open>What the handler relies on\<close>

text \<open>Every \<open>POST\<close> the parser accepts names a file with an extension, and its last header is followed by the
  two line ends that the code skips. (Without the first the code compares a null pointer, and without the
  second it reads beyond the request: see the property on \<open>POST\<close>.)\<close>

definition posts_ok :: "env \<Rightarrow> config \<Rightarrow> bool" where
  "posts_ok E a \<longleftrightarrow> (\<forall>buf seen room. let p = phr_parse_request E buf seen room in
     0 < phr_ret p \<and> slice (phr_method p) (phr_method_len p) buf = ''POST'' \<longrightarrow>
       (\<forall>q. bytes q = before_query (slice (phr_path p) (phr_path_len p) buf) \<longrightarrow> extension_of (file_name a q) \<noteq> None) \<and>
       hvalue (last (phr_headers p)) + hvalue_len (last (phr_headers p)) + 4 \<le> length buf)"

text \<open>The machine and the libraries answer as documented.\<close>

definition machine_ok :: "env \<Rightarrow> config \<Rightarrow> nat \<Rightarrow> bool" where
  "machine_ok E a fuel \<longleftrightarrow> server_ok E a \<and> full_sends E \<and> config_ok a \<and> files_ok E fuel \<and> phr_contract E \<and>
     parser_finds_headers E \<and> posts_ok E a \<and> (\<exists>n. scripts_end E n \<and> 0 < n \<and> n \<le> fuel \<and> n < 2 ^ 62)"

section \<open>What the handler does\<close>

text \<open>What handling one request with the result code \<open>c\<close> may change.\<close>

definition handled :: "config \<Rightarrow> int \<Rightarrow> world \<Rightarrow> int \<Rightarrow> world \<Rightarrow> bool" where
  "handled a fd w c w' \<longleftrightarrow> heap_ok w' \<and> live w \<subseteq> live w' \<and> next_fd w \<le> next_fd w' \<and> log_limit w' = log_limit w \<and>
     (\<forall>fd' < next_fd w. fd' \<in> open_fds w' \<longleftrightarrow> fd' \<in> open_fds w) \<and> (\<forall>fd'. fd' \<noteq> fd \<longrightarrow> sent_on fd' (trace w') = sent_on fd' (trace w)) \<and>
     Eof \<in> set (pending w' fd) \<and> reads_left (pending w' fd) \<le> reads_left (pending w fd) \<and>
     c \<in> {OK, ERROR, CLOSE_CONNECTION, NOT_FOUND, BAD_REQUEST} \<and>
     (c \<noteq> CLOSE_CONNECTION \<and> c \<noteq> ERROR \<longrightarrow> reads_left (pending w' fd) < reads_left (pending w fd)) \<and>
     (\<exists>ss. length ss \<le> 1 \<and> list_all (an_answer a) ss \<and> sent_on fd (trace w') = sent_on fd (trace w) @ concat ss \<and>
        (c \<noteq> CLOSE_CONNECTION \<and> c \<noteq> ERROR \<longrightarrow> length ss = 1))"

lemma wp_get_method:
  assumes "readable (rq_method r)"
    and "\<And>l. Q (if bytes (rq_method r) = ''GET'' then GET else if bytes (rq_method r) = ''POST'' then POST
      else if bytes (rq_method r) = ''OPTIONS'' then OPTIONS else UNKNOWN) (w\<lparr>log_out := l\<rparr>)"
  shows "wp (get_method r) Q E w"
proof -
  have q: "Q (if bytes (rq_method r) = ''GET'' then GET else if bytes (rq_method r) = ''POST'' then POST
      else if bytes (rq_method r) = ''OPTIONS'' then OPTIONS else UNKNOWN) w" using assms(2) [of "log_out w"] by simp
  note q' = assms(2) [of "logged LOG_WARNING False ''method not implemented'' E w"]
  have eq: "string_is_equal_to (rq_method r) (Some n) = Ret (bytes (rq_method r) = cstr n)" for n
    by (rule string_is_equal_to_eq [OF assms(1)])
  have names: "cstr ''GET'' = ''GET''" "cstr ''POST'' = ''POST''" "cstr ''OPTIONS'' = ''OPTIONS''" by (simp_all add: cstr_def)
  have "''GET'' \<noteq> ''POST''" "''GET'' \<noteq> ''OPTIONS''" "''POST'' \<noteq> ''OPTIONS''" by simp_all
  then show ?thesis
    using q q' unfolding get_method_def wp_bind eq names wp_lift returns_Ret
    by (cases "bytes (rq_method r) = ''GET''"; cases "bytes (rq_method r) = ''POST''";
      cases "bytes (rq_method r) = ''OPTIONS''") (simp_all only: wp_lift returns_Ret wp_if if_True if_False wp_return wp_bind wp_print simp_thms)
qed

lemma wp_connection_handler:
  assumes ok: "machine_ok E a fuel" and heap: "heap_ok w" and fd: "fd < next_fd w"
    and eof: "Eof \<in> set (pending w fd)" and fuel: "reads_left (pending w fd) < fuel"
    and Q: "\<And>c w'. handled a fd w c w' \<Longrightarrow> Q c w'"
  shows "wp (connection_handler fuel fd a) Q E w"
proof -
  obtain n where env: "server_ok E a" "full_sends E" and conf: "config_ok a" and files: "files_ok E fuel"
    and phr: "phr_contract E" "parser_finds_headers E" and posts: "posts_ok E a"
    and scripts: "scripts_end E n" "0 < n" "n \<le> fuel" "n < 2 ^ 62"
    using ok unfolding machine_ok_def by blast
  have "wp (bind (request_process fuel fuel (stack_request E) fd) (\<lambda>(response_code, request).
     if response_code < 0
     then if response_code = BAD_REQUEST then response_bad_request fuel fd a
       else if response_code = REQUEST_TOO_LONG then response_request_too_long fuel fd a
       else return response_code
     else bind (get_method request) (\<lambda>method.
       if method = UNKNOWN then response_not_implemented fuel fd a
       else if method = GET then response_get fuel fd a request
       else if method = POST then response_post fuel fd a request
       else response_options fuel fd a))) Q E w1"
    if w1: "kept fd w w1" "live w1 = live w" for w1
    unfolding wp_bind
  proof (rule wp_request_process [OF phr])
    show "length (rq_buffer (stack_request E)) = MAX_BUFFER" by (simp add: stack_request_def)
    have pend: "pending w1 fd = pending w fd" using w1(1) by (simp add: kept_def)
    then show "Eof \<in> set (pending w1 fd)" "reads_left (pending w1 fd) < fuel" "reads_left (pending w1 fd) < fuel"
      using eof fuel by simp_all
    fix code r es' l
    assume post: "process_post E (pending w1 fd) code r es'"
    let ?w2 = "(set_pending fd es' w1)\<lparr>log_out := l\<rparr>"
    have heap2: "heap_ok ?w2" using w1 by (simp add: kept_def heap_ok_def)
    have fuel0: "0 < fuel" using fuel by simp
    have fd2: "fd < next_fd ?w2" using fd w1 by (simp add: kept_def)
    have early: "Q code ?w2" if "code \<in> {CLOSE_CONNECTION, ERROR}"
      using post w1 that pend unfolding process_post_def kept_def
      by (intro Q, unfold handled_def, intro conjI exI [of _ "[]"]) (simp_all add: heap_ok_def, blast)
    have fin: "Q c w3"
      if s: "served a fd ?w2 w3" and c: "c \<in> {OK, ERROR, NOT_FOUND, BAD_REQUEST}" and code: "code \<notin> {CLOSE_CONNECTION, ERROR}" for c w3
    proof (rule Q)
      obtain t where t: "an_answer a t" "sent_on fd (trace w3) = sent_on fd (trace ?w2) @ t"
        using s unfolding served_def by blast
      have ss: "\<exists>ss. length ss \<le> 1 \<and> list_all (an_answer a) ss \<and> sent_on fd (trace w3) = sent_on fd (trace w) @ concat ss \<and>
        (c \<noteq> CLOSE_CONNECTION \<and> c \<noteq> ERROR \<longrightarrow> length ss = 1)"
        using t w1 by (intro exI [of _ "[t]"]) (auto simp: kept_def)
      show "handled a fd w c w3"
        using s c code post w1 pend ss unfolding handled_def
        by (auto simp: served_def process_post_def kept_def)
    qed
    have page: "wp (response_bad_request fuel fd a) Q E ?w2" "wp (response_request_too_long fuel fd a) Q E ?w2"
      if "code \<notin> {CLOSE_CONNECTION, ERROR}"
      using that by (intro wp_page [OF env heap2 fuel0] fin; simp)+
    have main: "wp (get_method r) (\<lambda>m. wp (if m = UNKNOWN then response_not_implemented fuel fd a
       else if m = GET then response_get fuel fd a r
       else if m = POST then response_post fuel fd a r
       else response_options fuel fd a) Q E) E ?w2" if code: "code = OK"
    proof -
      from post code obtain p seen room where p: "p = phr_parse_request E (received r) seen room" "0 < phr_ret p"
        and match: "request_matches r p" by (auto simp: process_post_def)
      have r: "readable (rq_method r)" "readable (path r)" "str_data (path r) \<noteq> None" "headers_ok r" "readable (url_args r)"
        using match by (auto simp: request_matches_def Let_def)
      have served: "Q c w3" if "served a fd (?w2\<lparr>log_out := l'\<rparr>) w3" "c \<in> {OK, ERROR, NOT_FOUND, BAD_REQUEST}" for c w3 l'
        using that code by (intro fin) simp_all
      show ?thesis
      proof (rule wp_get_method [OF r(1)])
        fix l'
        let ?w3 = "?w2\<lparr>log_out := l'\<rparr>"
        have heap3: "heap_ok ?w3" using heap2 by (simp add: heap_ok_def)
        have get: "wp (response_get fuel fd a r) Q E ?w3"
          by (rule wp_get_answer [OF env conf files heap3 _ scripts r(2-5)]) (use fd2 served in simp_all)
        have options: "wp (response_options fuel fd a) Q E ?w3"
          by (rule wp_options_answer [OF env heap3], rule served) simp_all
        have other: "wp (response_not_implemented fuel fd a) Q E ?w3"
          by (rule wp_page(4) [OF env heap3 fuel0], rule served) simp_all
        have post: "wp (response_post fuel fd a r) Q E ?w3" if "bytes (rq_method r) = ''POST''"
        proof (rule wp_post_answer [OF env conf heap3 _ scripts r(2,3)])
          have "slice (phr_method p) (phr_method_len p) (received r) = ''POST''"
            using match that by (simp add: request_matches_def Let_def)
          with posts p have "(\<forall>q. bytes q = before_query (slice (phr_path p) (phr_path_len p) (received r)) \<longrightarrow>
              extension_of (file_name a q) \<noteq> None)"
            and off: "hvalue (last (phr_headers p)) + hvalue_len (last (phr_headers p)) + 4 \<le> length (received r)"
            unfolding posts_ok_def Let_def by blast+
          then show "extension_of (file_name a (path r)) \<noteq> None"
            using match by (simp add: request_matches_def Let_def)
          have "body_offset r \<le> len_buffer r"
            using off match by (simp add: body_offset_def request_matches_def Let_def received_def buffer_ok_def)
          then show "readable (body r)" using match by (simp add: request_matches_def Let_def)
        qed (use fd2 served in simp_all)
        show "wp (if (if bytes (rq_method r) = ''GET'' then GET else if bytes (rq_method r) = ''POST'' then POST
            else if bytes (rq_method r) = ''OPTIONS'' then OPTIONS else UNKNOWN) = UNKNOWN then response_not_implemented fuel fd a
          else if (if bytes (rq_method r) = ''GET'' then GET else if bytes (rq_method r) = ''POST'' then POST
            else if bytes (rq_method r) = ''OPTIONS'' then OPTIONS else UNKNOWN) = GET then response_get fuel fd a r
          else if (if bytes (rq_method r) = ''GET'' then GET else if bytes (rq_method r) = ''POST'' then POST
            else if bytes (rq_method r) = ''OPTIONS'' then OPTIONS else UNKNOWN) = POST then response_post fuel fd a r
          else response_options fuel fd a) Q E ?w3"
          using get options other post by simp
      qed
    qed
    have "code \<in> {OK, CLOSE_CONNECTION, ERROR, BAD_REQUEST, REQUEST_TOO_LONG}"
      using post by (simp add: process_post_def)
    then show "wp (case (code, r) of (response_code, request) \<Rightarrow>
       if response_code < 0
       then if response_code = BAD_REQUEST then response_bad_request fuel fd a
         else if response_code = REQUEST_TOO_LONG then response_request_too_long fuel fd a
         else return response_code
       else bind (get_method request) (\<lambda>method.
         if method = UNKNOWN then response_not_implemented fuel fd a
         else if method = GET then response_get fuel fd a request
         else if method = POST then response_post fuel fd a request
         else response_options fuel fd a)) Q E ?w2"
      using early page main by (auto simp del: wp_if)
  qed
  then show ?thesis
    unfolding connection_handler_def
    using heap by (simp add: wp_socket_set_timeout kept_def heap_ok_def)
qed

section \<open>Properties\<close>


lemma demo_machine_ok: "machine_ok demo_env demo_config 40"
proof -
  have "files_ok demo_env 40"
    using demo_junk(1) by (auto simp: files_ok_def demo_gmtime)
  moreover have "slice 0 3 buf \<noteq> ''POST''" for buf
    by (auto simp: slice_def dest: arg_cong [where f = length])
  then have "posts_ok demo_env demo_config"
    by (simp add: posts_ok_def demo_parse_def demo_answer_def Let_def)
  ultimately show ?thesis
    using demo_server_ok demo_full_sends demo_config_ok demo_phr_contract demo_finds_headers demo_scripts_end
    by (auto simp: machine_ok_def intro!: exI [of _ 8])
qed


text \<open>C30: a request that cannot be parsed is answered with the page 400, which announces
  \<open>Connection: close\<close>, but the handler returns \<open>OK\<close>: its caller goes on with the same connection.\<close>

theorem bad_request_keeps_connection:
  assumes "server_ok E a" and "heap_ok w" and "send_ret E (n_send w) = Some n" and "0 < fuel"
    and "call_ok E (n_calls w)" and "w1 = w\<lparr>n_calls := Suc (n_calls w),
      trace := trace w @ [Timeout_Set fd (nat (socket_timeout a mod 2 ^ 32))]\<rparr>"
    and "request_process fuel fuel (stack_request E) fd E w1 = Ret ((BAD_REQUEST, r), (set_pending fd es w1)\<lparr>log_out := l\<rparr>)"
  shows "\<exists>w' u v. connection_handler fuel fd a E w = Ret (OK, w') \<and>
    trace w' = trace w1 @ [Sent fd (take n (error_text a 400 ''Bad Request'' (date_at E (n_calls w1))))] \<and>
    error_text a 400 ''Bad Request'' (date_at E (n_calls w1)) = u @ ''Connection: close'' @ v \<and> pending w' fd = es"
proof -
  let ?w2 = "(set_pending fd es w1)\<lparr>log_out := l\<rparr>"
  have heap2: "heap_ok ?w2" using assms(2,6) by (simp add: heap_ok_def)
  have "wp (response_bad_request fuel fd a) (\<lambda>c w'. c = OK \<and>
      trace w' = trace w1 @ [Sent fd (take n (error_text a 400 ''Bad Request'' (date_at E (n_calls w1))))] \<and>
      pending w' fd = es) E ?w2"
    unfolding response_bad_request_def
    by (rule wp_response_error [OF assms(1) heap2 _ _ _ _ assms(4), where n = n])
      (use assms(3,6) in \<open>simp_all add: sent_state_def\<close>)
  then obtain w' where w': "response_bad_request fuel fd a E ?w2 = Ret (OK, w')"
    "trace w' = trace w1 @ [Sent fd (take n (error_text a 400 ''Bad Request'' (date_at E (n_calls w1))))]"
    "pending w' fd = es" by (elim wpE) auto
  have "socket_set_timeout fd (socket_timeout a) E w = Ret (0, w1)"
    using assms(5,6) by (simp add: socket_set_timeout_def bind_def sys_call_def emit_def modify_def return_def)
  then have "connection_handler fuel fd a E w = Ret (OK, w')"
    using w'(1) assms(7) by (simp add: connection_handler_def bind_def asks_def)
  moreover obtain u v where "error_text a 400 ''Bad Request'' (date_at E (n_calls w1)) = u @ ''Connection: close'' @ v"
    by (rule that [of "common_text a 400 ''Bad Request'' (date_at E (n_calls w1)) @
      ''Content-Type: text/html; charset=UTF-8'' @ CRLF @ ''Content-Length: '' @
      dec (length (error_body ''Bad Request'')) @ CRLF" "CRLF @ CRLF @ error_body ''Bad Request''"])
      (simp add: error_text_def)
  ultimately show ?thesis using w'(2,3) by blast
qed

text \<open>A parser that rejects everything.\<close>

definition rejecting_env :: env where
  "rejecting_env = demo_env\<lparr>phr_parse_request := \<lambda>buf seen room. demo_answer (-1) []\<rparr>"

lemma rejecting_run:
  assumes "pending w 7 = [Bytes demo_text, Eof]"
  shows "\<exists>r es l. request_process (Suc m) (Suc n) (stack_request rejecting_env) 7 rejecting_env w
    = Ret ((BAD_REQUEST, r), (set_pending 7 es w)\<lparr>log_out := l\<rparr>)"
  using assms
  by (simp add: request_process_def bind_def return_def lift_def asks_def sys_read_def stack_request_def
    MAX_BUFFER_def demo_text_def request_pass_def mem_write_def overwrite_def rejecting_env_def demo_answer_def
    request_verdict_def print_error_def print_priority_def Let_def) (metis log_same)

theorem bad_request_keeps_connection_witness:
  "\<exists>w' u v. connection_handler 40 7 demo_config rejecting_env demo_world = Ret (OK, w') \<and>
    sent_on 7 (trace w') = u @ ''Connection: close'' @ v"
proof -
  let ?w1 = "demo_world\<lparr>n_calls := Suc (n_calls demo_world),
      trace := trace demo_world @ [Timeout_Set 7 (nat (socket_timeout demo_config mod 2 ^ 32))]\<rparr>"
  have env: "server_ok rejecting_env demo_config" "send_ret rejecting_env (n_send demo_world) = Some (2 ^ 64)"
    "call_ok rejecting_env (n_calls demo_world)"
    using demo_server_ok by (simp_all add: rejecting_env_def server_ok_def alloc_ok_def clock_ok_def)
  obtain r es l where "request_process (Suc 39) (Suc 39) (stack_request rejecting_env) 7 rejecting_env ?w1
      = Ret ((BAD_REQUEST, r), (set_pending 7 es ?w1)\<lparr>log_out := l\<rparr>)"
    using rejecting_run [of ?w1 39 39] by auto
  then have run: "request_process 40 40 (stack_request rejecting_env) 7 rejecting_env ?w1
      = Ret ((BAD_REQUEST, r), (set_pending 7 es ?w1)\<lparr>log_out := l\<rparr>)" by simp
  let ?page = "error_text demo_config 400 ''Bad Request'' (date_at rejecting_env (n_calls ?w1))"
  obtain w' u v where w': "connection_handler 40 7 demo_config rejecting_env demo_world = Ret (OK, w')"
    "trace w' = trace ?w1 @ [Sent 7 (take (2 ^ 64) ?page)]" "?page = u @ ''Connection: close'' @ v"
    using bad_request_keeps_connection [OF env(1) demo_heap_ok env(2) _ env(3) refl run] by auto
  have "length (error_body ''Bad Request'') < 2 ^ 32" by (simp add: error_body_def)
  moreover have "length (common_text demo_config 400 ''Bad Request'' (date_at rejecting_env (n_calls ?w1))) < 2 ^ 34"
    by (rule length_common_text [OF env(1)]) simp_all
  moreover have "length (dec (length (error_body ''Bad Request''))) \<le> 20" by (rule length_dec_le) (simp_all add: error_body_def)
  ultimately have "length ?page \<le> 2 ^ 64" by (simp add: error_text_def)
  then have "take (2 ^ 64) ?page = u @ ''Connection: close'' @ v" using w'(3) by (simp only: take_all)
  then show ?thesis using w'(1,2) by auto
qed



end
