(* ===== verification/Worker.thy ===== *)
theory Worker
  imports Connection_Handler
begin

text \<open>
  What a worker thread of src/thread_pool.c does for one client: the loop that handles its requests,
  and the handler that closes its descriptor when the thread ends. The steps in which a worker shares
  state with other threads are in the theory on concurrency.
\<close>

section \<open>The code\<close>

text \<open>The \<open>do\<close> loop of \<open>_worker_function\<close>, with a bound on its rounds; the result is the code that ended it.\<close>

fun serve_loop :: "nat \<Rightarrow> nat \<Rightarrow> int \<Rightarrow> config \<Rightarrow> int prog" where
  "serve_loop 0 fuel client_fd server_attrs = unfinished"
| "serve_loop (Suc rounds) fuel client_fd server_attrs =
     bind (connection_handler fuel client_fd server_attrs) (\<lambda>response_code.
       if response_code \<noteq> CLOSE_CONNECTION \<and> response_code \<noteq> ERROR
       then serve_loop rounds fuel client_fd server_attrs
       else return response_code)"

definition cleanup_handler :: "int \<Rightarrow> unit prog" where
  "cleanup_handler client_fd =
     (if client_fd \<noteq> -1
      then bind (socket_close client_fd) (\<lambda>_. print_debug ''client_fd closed'')
      else return ())"

text \<open>\<open>_soft_kill\<close> ends the thread, which runs the handler above on the thread's descriptor.\<close>

definition soft_kill :: "int \<Rightarrow> unit prog" where
  "soft_kill client_fd = bind (print_debug ''soft killed'') (\<lambda>_. cleanup_handler client_fd)"

text \<open>One client, from the accepted descriptor to the closed one.\<close>

definition serve_client :: "nat \<Rightarrow> nat \<Rightarrow> int \<Rightarrow> config \<Rightarrow> unit prog" where
  "serve_client rounds fuel client_fd server_attrs =
     bind (serve_loop rounds fuel client_fd server_attrs) (\<lambda>_. socket_close client_fd)"

section \<open>Properties\<close>

text \<open>What serving a client to its end leaves: only whole answers, at most one for each read that was left,
  all of them on its own descriptor.\<close>

definition conversation :: "config \<Rightarrow> int \<Rightarrow> world \<Rightarrow> world \<Rightarrow> bool" where
  "conversation a fd w w' \<longleftrightarrow> heap_ok w' \<and> live w \<subseteq> live w' \<and> next_fd w \<le> next_fd w' \<and>
     (\<forall>fd' < next_fd w. fd' \<in> open_fds w' \<longleftrightarrow> fd' \<in> open_fds w) \<and>
     (\<forall>fd'. fd' \<noteq> fd \<longrightarrow> sent_on fd' (trace w') = sent_on fd' (trace w)) \<and>
     (\<exists>ss. list_all (an_answer a) ss \<and> length ss \<le> Suc (reads_left (pending w fd)) \<and>
        sent_on fd (trace w') = sent_on fd (trace w) @ concat ss)"

lemma handled_conversation:
  assumes "handled a fd w c w1"
  shows "conversation a fd w w1"
  using assms unfolding handled_def conversation_def by force

lemma conversation_step:
  assumes "handled a fd w c w1" and "c \<noteq> CLOSE_CONNECTION \<and> c \<noteq> ERROR" and "conversation a fd w1 w'"
  shows "conversation a fd w w'"
proof -
  obtain ss where ss: "list_all (an_answer a) ss" "length ss = 1"
    "sent_on fd (trace w1) = sent_on fd (trace w) @ concat ss"
    using assms(1,2) unfolding handled_def by blast
  obtain ss' where ss': "list_all (an_answer a) ss'" "length ss' \<le> Suc (reads_left (pending w1 fd))"
    "sent_on fd (trace w') = sent_on fd (trace w1) @ concat ss'"
    using assms(3) unfolding conversation_def by blast
  have "reads_left (pending w1 fd) < reads_left (pending w fd)" using assms(1,2) by (simp add: handled_def)
  then have "\<exists>ss. list_all (an_answer a) ss \<and> length ss \<le> Suc (reads_left (pending w fd)) \<and>
        sent_on fd (trace w') = sent_on fd (trace w) @ concat ss"
    using ss ss' by (intro exI [of _ "ss @ ss'"]) simp
  then show ?thesis using assms(1,3) unfolding conversation_def handled_def by auto
qed

lemma wp_serve_loop:
  assumes ok: "machine_ok E a fuel"
  shows "heap_ok w \<Longrightarrow> fd < next_fd w \<Longrightarrow> Eof \<in> set (pending w fd) \<Longrightarrow> reads_left (pending w fd) < fuel \<Longrightarrow>
    reads_left (pending w fd) < rounds \<Longrightarrow>
    (\<And>c w'. c \<in> {CLOSE_CONNECTION, ERROR} \<Longrightarrow> conversation a fd w w' \<Longrightarrow> Q c w') \<Longrightarrow>
    wp (serve_loop rounds fuel fd a) Q E w"
proof (induction rounds arbitrary: w)
  case 0
  then show ?case by simp
next
  case (Suc rounds)
  show ?case
    unfolding serve_loop.simps wp_bind
  proof (rule wp_connection_handler [OF ok Suc.prems(1-4)])
    fix c w1
    assume h: "handled a fd w c w1"
    show "wp (if c \<noteq> CLOSE_CONNECTION \<and> c \<noteq> ERROR then serve_loop rounds fuel fd a else return c) Q E w1"
    proof (cases "c \<noteq> CLOSE_CONNECTION \<and> c \<noteq> ERROR")
      case True
      have "wp (serve_loop rounds fuel fd a) Q E w1"
      proof (rule Suc.IH)
        show "heap_ok w1" "fd < next_fd w1" "Eof \<in> set (pending w1 fd)" "reads_left (pending w1 fd) < fuel"
          "reads_left (pending w1 fd) < rounds"
          using h True Suc.prems by (auto simp: handled_def)
        fix c' w'
        assume "c' \<in> {CLOSE_CONNECTION, ERROR}" "conversation a fd w1 w'"
        then show "Q c' w'" using conversation_step [OF h True] by (intro Suc.prems(6)) simp_all
      qed
      then show ?thesis by (subst if_P [OF True])
    next
      case False
      then show ?thesis using Suc.prems(6) handled_conversation [OF h] by (subst if_not_P) auto
    qed
  qed
qed

lemma wp_serve_client:
  assumes "machine_ok E a fuel" and "heap_ok w" and "fd < next_fd w" and "Eof \<in> set (pending w fd)"
    and "reads_left (pending w fd) < fuel" and "reads_left (pending w fd) < rounds"
    and Q: "\<And>w1. conversation a fd w w1 \<Longrightarrow> Q () (w1\<lparr>open_fds := open_fds w1 - {fd}, trace := trace w1 @ [Closed fd]\<rparr>)"
  shows "wp (serve_client rounds fuel fd a) Q E w"
  unfolding serve_client_def wp_bind
  by (rule wp_serve_loop [OF assms(1-6)]) (simp add: wp_socket_close Q)

text \<open>A worker is done with every client that ends its side at some time, whatever it sends before: the
  loop ends, the client has received whole answers only, nobody else has received anything, and the
  descriptor is closed last.\<close>

theorem client_served_to_its_end:
  assumes "machine_ok E a fuel" and "heap_ok w" and "fd < next_fd w" and "Eof \<in> set (pending w fd)"
    and "reads_left (pending w fd) < fuel" and "reads_left (pending w fd) < rounds"
  shows "\<exists>w1 w'. serve_client rounds fuel fd a E w = Ret ((), w') \<and> conversation a fd w w1 \<and>
    fd \<notin> open_fds w' \<and> trace w' = trace w1 @ [Closed fd]"
proof -
  have "wp (serve_client rounds fuel fd a) (\<lambda>_ w'. \<exists>w1. conversation a fd w w1 \<and>
      w' = w1\<lparr>open_fds := open_fds w1 - {fd}, trace := trace w1 @ [Closed fd]\<rparr>) E w"
    by (rule wp_serve_client [OF assms]) blast
  then show ?thesis by (elim wpE) auto
qed

theorem client_served_to_its_end_witness:
  "\<exists>w1 w'. serve_client 40 40 7 demo_config demo_env demo_world = Ret ((), w') \<and>
     conversation demo_config 7 demo_world w1 \<and> 7 \<notin> open_fds w' \<and> trace w' = trace w1 @ [Closed 7]"
  by (rule client_served_to_its_end [OF demo_machine_ok demo_heap_ok _ _ demo_reads demo_reads]) simp_all

end
