(* ===== verification/Thread_Pool.thy ===== *)
theory Thread_Pool
  imports Worker Complex_Main
begin

text \<open>
  The pool of worker threads, src/thread_pool.c, as its owner sees it: creating it, growing and shrinking
  it, one turn of the watcher, and the two ways of destroying it. A thread is named by the number of the
  call that created it; creating, signalling, cancelling and joining threads are events of the trace. What
  the threads do meanwhile is the theory on concurrency.
\<close>

section \<open>The code\<close>

definition INITIAL_THREADS :: int where "INITIAL_THREADS = 100"
definition INT_MAX :: int where "INT_MAX = 2147483647"

text \<open>\<open>struct _ThreadPool\<close>, less its two mutexes; an entry of the array that nothing was stored in, and the
  watcher's before it is created, is \<open>None\<close>.\<close>

record ThreadPool =
  pool_block :: nat
  threads_block :: nat
  watcher_thread :: "nat option"
  threads :: "nat option list"
  n_spawned_threads :: int
  n_active_threads :: int
  max_threads :: int
  pool_socket_fd :: int
  pool_server_attrs :: config

datatype kill_type = HARD | SOFT

text \<open>\<open>pthread_create\<close> for a worker: the thread, or \<open>None\<close> when it fails.\<close>

definition create_worker :: "nat option prog" where
  "create_worker = (\<lambda>E w. let k = n_calls w in
     if call_ok E k then Ret (Some k, w\<lparr>n_calls := Suc k, trace := trace w @ [Thread_Created k]\<rparr>)
     else Ret (None, w\<lparr>n_calls := Suc k\<rparr>))"

definition create_watcher :: "nat option prog" where
  "create_watcher = (\<lambda>E w. let k = n_calls w in
     if call_ok E k then Ret (Some k, w\<lparr>n_calls := Suc k, trace := trace w @ [Watcher_Created]\<rparr>)
     else Ret (None, w\<lparr>n_calls := Suc k\<rparr>))"

text \<open>Reading an entry of the array.\<close>

definition thread_at :: "ThreadPool \<Rightarrow> int \<Rightarrow> nat outcome" where
  "thread_at pool i =
     (if i < 0 \<or> int (length (threads pool)) \<le> i then Undef Out_Of_Bounds
      else case threads pool ! nat i of None \<Rightarrow> Undef Uninit_Read | Some t \<Rightarrow> Ret t)"

text \<open>The loop that creates the workers \<open>i\<close>, \<open>i + 1\<close>, \dots, \<open>n\<close> of them; the second part of the result is the
  index at which a creation failed.\<close>

fun spawn_loop :: "nat \<Rightarrow> int \<Rightarrow> ThreadPool \<Rightarrow> (ThreadPool \<times> int option) prog" where
  "spawn_loop 0 i pool = return (pool, None)"
| "spawn_loop (Suc n) i pool =
     (if i < 0 \<or> int (length (threads pool)) \<le> i then undef Out_Of_Bounds
      else bind create_worker (\<lambda>t. case t of
        None \<Rightarrow> return (pool, Some i)
      | Some t \<Rightarrow> spawn_loop n (i + 1) (pool\<lparr>threads := (threads pool)[nat i := Some t]\<rparr>)))"

text \<open>A loop that does something to each of \<open>n\<close> threads, the \<open>i\<close>-th first, then the next in the direction \<open>d\<close>.\<close>

fun each_thread :: "(nat \<Rightarrow> os_event) \<Rightarrow> int \<Rightarrow> nat \<Rightarrow> int \<Rightarrow> ThreadPool \<Rightarrow> unit prog" where
  "each_thread act d 0 i pool = return ()"
| "each_thread act d (Suc n) i pool =
     bind (lift (thread_at pool i)) (\<lambda>t. bind (emit (act t)) (\<lambda>_. each_thread act d n (i + d) pool))"

definition thread_pool_destroy :: "ThreadPool \<Rightarrow> kill_type \<Rightarrow> unit prog" where
  "thread_pool_destroy pool type =
     bind (lift (case watcher_thread pool of None \<Rightarrow> Undef Uninit_Read | Some t \<Rightarrow> Ret t)) (\<lambda>_.
     bind (emit Watcher_Cancelled) (\<lambda>_.
     bind (if type = HARD
           then each_thread Thread_Cancelled 1 (nat (n_spawned_threads pool)) 0 pool
           else each_thread Thread_Signalled 1 (nat (n_spawned_threads pool)) 0 pool) (\<lambda>_.
     bind (each_thread Thread_Joined 1 (nat (n_spawned_threads pool)) 0 pool) (\<lambda>_.
     bind (emit (Mutex_Destroyed 0)) (\<lambda>_.
     bind (emit (Mutex_Destroyed 1)) (\<lambda>_.
     bind (free (threads_block pool)) (\<lambda>_.
     bind (socket_close (pool_socket_fd pool)) (\<lambda>_.
     free (pool_block pool)))))))))"

definition thread_pool_hard_destroy :: "ThreadPool \<Rightarrow> unit prog" where
  "thread_pool_hard_destroy pool = thread_pool_destroy pool HARD"

definition thread_pool_soft_destroy :: "ThreadPool \<Rightarrow> unit prog" where
  "thread_pool_soft_destroy pool = thread_pool_destroy pool SOFT"

text \<open>\<open>thread_pool_ini\<close>, first the part from the allocated array on. On the path where the array cannot be
  allocated, and on those where a creation fails, the code cancels the watcher, which does not exist yet.\<close>

definition pool_start :: "ThreadPool \<Rightarrow> ThreadPool option prog" where
  "pool_start pool =
     bind (spawn_loop (nat (n_spawned_threads pool)) 0 pool) (\<lambda>(pool, failed). case failed of
       Some i \<Rightarrow>
         bind (print_error ''failed to init thread number %d'') (\<lambda>_.
         bind (thread_pool_hard_destroy (pool\<lparr>n_spawned_threads := i\<rparr>)) (\<lambda>_.
         return None))
     | None \<Rightarrow>
         bind create_watcher (\<lambda>watcher. case watcher of
           None \<Rightarrow>
             bind (print_error ''failed to init watcher thread'') (\<lambda>_.
             bind (thread_pool_hard_destroy pool) (\<lambda>_.
             return None))
         | Some t \<Rightarrow> return (Some (pool\<lparr>watcher_thread := Some t\<rparr>))))"

definition pool_alloc :: "int \<Rightarrow> config \<Rightarrow> int \<Rightarrow> ThreadPool option prog" where
  "pool_alloc socket_fd server_attrs n_max =
     bind malloc (\<lambda>p. case p of
       None \<Rightarrow> bind (print_error ''failed to allocate memory for ThreadPool'') (\<lambda>_.
               bind (socket_close socket_fd) (\<lambda>_. return None))
     | Some p \<Rightarrow>
       bind sys_call (\<lambda>shared_mutex.
       if \<not> shared_mutex
       then bind (print_error ''failed to init shared_mutex'') (\<lambda>_.
            bind (free p) (\<lambda>_.
            bind (socket_close socket_fd) (\<lambda>_. return None)))
       else
       bind sys_call (\<lambda>watcher_mutex.
       if \<not> watcher_mutex
       then bind (print_error ''failed to init watcher_mutex'') (\<lambda>_.
            bind (emit (Mutex_Destroyed 0)) (\<lambda>_.
            bind (free p) (\<lambda>_.
            bind (socket_close socket_fd) (\<lambda>_. return None))))
       else
       bind malloc (\<lambda>q. case q of
         None \<Rightarrow>
           bind (print_error ''failed to allocate memory for the list of threads'') (\<lambda>_.
           bind (emit (Mutex_Destroyed 0)) (\<lambda>_.
           bind (emit (Mutex_Destroyed 1)) (\<lambda>_.
           undef Uninit_Read)))
       | Some q \<Rightarrow> pool_start
           \<lparr>pool_block = p, threads_block = q, watcher_thread = None, threads = replicate (nat n_max) None,
            n_spawned_threads = INITIAL_THREADS, n_active_threads = 0, max_threads = n_max,
            pool_socket_fd = socket_fd, pool_server_attrs = server_attrs\<rparr>))))"

definition thread_pool_ini :: "int \<Rightarrow> config \<Rightarrow> ThreadPool option prog" where
  "thread_pool_ini socket_fd server_attrs =
     (let n_max = max_connections server_attrs in
      if n_max < 1
      then bind (print_error ''maximum number of clients must be greater or equal to 1'') (\<lambda>_.
           bind (socket_close socket_fd) (\<lambda>_. return None))
      else if n_max < INITIAL_THREADS
      then bind (print_warning ''maximum number of threads set to %d'') (\<lambda>_.
           pool_alloc socket_fd server_attrs INITIAL_THREADS)
      else pool_alloc socket_fd server_attrs n_max)"

text \<open>\<open>ceil(1.5 * n)\<close> and \<open>ceil(0.75 * n)\<close>: for an \<open>int\<close> both products are exact in a \<open>double\<close>.\<close>

definition grow_goal :: "int \<Rightarrow> int" where "grow_goal n = (3 * n + 1) div 2"
definition shrink_goal :: "int \<Rightarrow> int" where "shrink_goal n = (3 * n + 3) div 4"

definition grow_pool :: "ThreadPool \<Rightarrow> ThreadPool prog" where
  "grow_pool pool =
     (let goal = grow_goal (n_spawned_threads pool) in
      if goal > INT_MAX then undef Out_Of_Range
      else if n_spawned_threads pool = max_threads pool
      then bind (print_warning ''cannot spawn more than %d threads...'') (\<lambda>_. return pool)
      else let goal = (if goal > max_threads pool then max_threads pool else goal) in
        bind (spawn_loop (nat (goal - n_spawned_threads pool)) (n_spawned_threads pool) pool) (\<lambda>(pool, failed).
        case failed of
          Some i \<Rightarrow> bind (print_error ''failed to create thread number %d, only %d threads available'') (\<lambda>_.
            return (pool\<lparr>n_spawned_threads := i\<rparr>))
        | None \<Rightarrow> bind (print_info ''pool size increased, now there are %d threads'') (\<lambda>_.
            return (pool\<lparr>n_spawned_threads := goal\<rparr>))))"

definition shrink_pool :: "ThreadPool \<Rightarrow> ThreadPool prog" where
  "shrink_pool pool =
     (let goal = shrink_goal (n_spawned_threads pool) in
      if goal < INITIAL_THREADS \<or> goal = n_spawned_threads pool then return pool
      else bind (each_thread Thread_Signalled (-1) (nat (n_spawned_threads pool - goal)) (n_spawned_threads pool - 1) pool) (\<lambda>_.
           bind (print_info ''pool size decreased, now there are %d threads'') (\<lambda>_.
           return (pool\<lparr>n_spawned_threads := goal\<rparr>))))"

text \<open>One turn of \<open>_watcher_function\<close>, with the number of active threads it read.\<close>

definition watcher_turn :: "int \<Rightarrow> ThreadPool \<Rightarrow> ThreadPool prog" where
  "watcher_turn executing_threads pool =
     (if 4 * executing_threads > 3 * n_spawned_threads pool then grow_pool pool
      else if 4 * executing_threads < n_spawned_threads pool then shrink_pool pool
      else return pool)"

text \<open>The numbers are those of the source's floating point expressions.\<close>

lemma goals_are_ceilings:
  "grow_goal n = \<lceil>3 / 2 * real_of_int n\<rceil>" "shrink_goal n = \<lceil>3 / 4 * real_of_int n\<rceil>"
proof -
  let ?p = "(3 * n + 1) div 2"
  have "2 * ?p \<ge> 3 * n" "2 * ?p < 3 * n + 2" by linarith+
  then have "real_of_int (2 * ?p) \<ge> real_of_int (3 * n)" "real_of_int (2 * ?p) < real_of_int (3 * n + 2)"
    by (simp_all only: of_int_le_iff of_int_less_iff)
  then have "real_of_int ?p - 1 < 3 / 2 * real_of_int n \<and> 3 / 2 * real_of_int n \<le> real_of_int ?p" by simp
  then show "grow_goal n = \<lceil>3 / 2 * real_of_int n\<rceil>" unfolding grow_goal_def by linarith
  let ?q = "(3 * n + 3) div 4"
  have "4 * ?q \<ge> 3 * n" "4 * ?q < 3 * n + 4" by linarith+
  then have "real_of_int (4 * ?q) \<ge> real_of_int (3 * n)" "real_of_int (4 * ?q) < real_of_int (3 * n + 4)"
    by (simp_all only: of_int_le_iff of_int_less_iff)
  then have "real_of_int ?q - 1 < 3 / 4 * real_of_int n \<and> 3 / 4 * real_of_int n \<le> real_of_int ?q" by simp
  then show "shrink_goal n = \<lceil>3 / 4 * real_of_int n\<rceil>" unfolding shrink_goal_def by linarith
qed

section \<open>Facts\<close>

text \<open>The threads the pool knows of, and the invariant of a pool between two calls.\<close>

definition slots :: "ThreadPool \<Rightarrow> nat list" where
  "slots pool = map the (take (nat (n_spawned_threads pool)) (threads pool))"

definition pool_ok :: "ThreadPool \<Rightarrow> world \<Rightarrow> bool" where
  "pool_ok pool w \<longleftrightarrow> INITIAL_THREADS \<le> n_spawned_threads pool \<and> n_spawned_threads pool \<le> max_threads pool \<and>
     length (threads pool) = nat (max_threads pool) \<and>
     None \<notin> set (take (nat (n_spawned_threads pool)) (threads pool)) \<and>
     distinct (slots pool) \<and> (\<forall>t \<in> set (slots pool). t < n_calls w) \<and> watcher_thread pool \<noteq> None"

lemma length_slots: "pool_ok pool w \<Longrightarrow> length (slots pool) = nat (n_spawned_threads pool)"
  by (auto simp: pool_ok_def slots_def INITIAL_THREADS_def)

lemma thread_at_slots:
  assumes "pool_ok pool w" and "i < length (slots pool)"
  shows "thread_at pool (int i) = Ret (slots pool ! i)"
proof -
  have i: "i < nat (n_spawned_threads pool)" "nat (n_spawned_threads pool) \<le> length (threads pool)"
    using assms length_slots [OF assms(1)] by (auto simp: pool_ok_def)
  then have "threads pool ! i \<in> set (take (nat (n_spawned_threads pool)) (threads pool))"
    by (metis in_set_conv_nth length_take min.absorb2 nth_take)
  then have "threads pool ! i \<noteq> None" using assms(1) unfolding pool_ok_def by metis
  with i show ?thesis by (auto simp: thread_at_def slots_def)
qed

lemma each_thread_up:
  assumes "pool_ok pool w0"
  shows "i + n \<le> length (slots pool) \<Longrightarrow> each_thread act 1 n (int i) pool E w
    = Ret ((), w\<lparr>trace := trace w @ map act (take n (drop i (slots pool)))\<rparr>)"
proof (induction n arbitrary: i w)
  case 0
  then show ?case by (simp add: return_def)
next
  case (Suc n)
  have at: "thread_at pool (int i) = Ret (slots pool ! i)" by (rule thread_at_slots [OF assms]) (use Suc.prems in simp)
  have "drop i (slots pool) = slots pool ! i # drop (Suc i) (slots pool)"
    by (rule Cons_nth_drop_Suc [symmetric]) (use Suc.prems in simp)
  then have split: "take (Suc n) (drop i (slots pool)) = slots pool ! i # take n (drop (Suc i) (slots pool))" by simp
  have idx: "int i + 1 = int (Suc i)" by simp
  show ?case
    using Suc.IH [of "Suc i"] Suc.prems
    by (simp add: bind_def lift_def emit_def modify_def at split idx del: of_nat_Suc take_Suc_Cons)
qed

lemma each_thread_down:
  assumes "pool_ok pool w0"
  shows "n \<le> m \<Longrightarrow> m \<le> length (slots pool) \<Longrightarrow> each_thread act (-1) n (int m - 1) pool E w
    = Ret ((), w\<lparr>trace := trace w @ map act (rev (take n (drop (m - n) (slots pool))))\<rparr>)"
proof (induction n arbitrary: m w)
  case 0
  then show ?case by (simp add: return_def)
next
  case (Suc n)
  then obtain k where m: "m = Suc k" by (cases m) auto
  have at: "thread_at pool (int k) = Ret (slots pool ! k)" by (rule thread_at_slots [OF assms]) (use Suc.prems m in simp)
  have "take (Suc n) (drop (m - Suc n) (slots pool)) = take n (drop (k - n) (slots pool)) @ [slots pool ! k]"
    using Suc.prems m by (simp add: take_Suc_conv_app_nth)
  then show ?case
    using Suc.IH [of k] Suc.prems m by (simp add: bind_def lift_def emit_def modify_def at)
qed

lemma overwrite_step:
  assumes "i + Suc (length ys) \<le> length xs"
  shows "overwrite (xs[i := x]) (Suc i) ys = overwrite xs i (x # ys)"
  using assms by (simp add: overwrite_def take_Suc_conv_app_nth)

lemma spawn_loop_result:
  "nat i + n \<le> length (threads pool) \<Longrightarrow> 0 \<le> i \<Longrightarrow>
   \<exists>k\<le>n. (\<forall>j<k. call_ok E (n_calls w + j)) \<and> (k < n \<longrightarrow> \<not> call_ok E (n_calls w + k)) \<and>
     spawn_loop n i pool E w =
       Ret ((pool\<lparr>threads := overwrite (threads pool) (nat i) (map Some [n_calls w ..< n_calls w + k])\<rparr>,
             if k < n then Some (i + int k) else None),
            w\<lparr>n_calls := n_calls w + k + (if k < n then 1 else 0),
              trace := trace w @ map Thread_Created [n_calls w ..< n_calls w + k]\<rparr>)"
proof (induction n arbitrary: i pool w)
  case 0
  then show ?case by (simp add: return_def overwrite_def)
next
  case (Suc n)
  show ?case
  proof (cases "call_ok E (n_calls w)")
    case False
    then show ?thesis
      using Suc.prems by (intro exI [of _ 0]) (auto simp: bind_def create_worker_def return_def overwrite_def Let_def)
  next
    case True
    let ?c = "n_calls w" and ?i = "nat i"
    let ?pool = "pool\<lparr>threads := (threads pool)[?i := Some ?c]\<rparr>"
    let ?w = "w\<lparr>n_calls := Suc ?c, trace := trace w @ [Thread_Created ?c]\<rparr>"
    obtain k where k: "k \<le> n" "\<forall>j<k. call_ok E (Suc ?c + j)" "k < n \<longrightarrow> \<not> call_ok E (Suc ?c + k)"
      and run: "spawn_loop n (i + 1) ?pool E ?w =
       Ret ((?pool\<lparr>threads := overwrite ((threads pool)[?i := Some ?c]) (Suc ?i) (map Some [Suc ?c ..< Suc ?c + k])\<rparr>,
             if k < n then Some (i + 1 + int k) else None),
            ?w\<lparr>n_calls := Suc ?c + k + (if k < n then 1 else 0),
              trace := trace ?w @ map Thread_Created [Suc ?c ..< Suc ?c + k]\<rparr>)"
      using Suc.IH [of "i + 1" ?pool ?w] Suc.prems by (auto simp: nat_add_distrib)
    have ids: "[?c ..< ?c + Suc k] = ?c # [Suc ?c ..< Suc ?c + k]" by (simp add: upt_rec)
    have over: "overwrite ((threads pool)[?i := Some ?c]) (Suc ?i) (map Some [Suc ?c ..< Suc ?c + k])
        = overwrite (threads pool) ?i (map Some [?c ..< ?c + Suc k])"
      unfolding ids using Suc.prems(1) k(1) by (simp add: overwrite_step)
    have "\<forall>j<Suc k. call_ok E (?c + j)" using True k(2) by (auto simp: less_Suc_eq_0_disj)
    moreover have "spawn_loop (Suc n) i pool E w = spawn_loop n (i + 1) ?pool E ?w"
    proof -
      have "\<not> (i < 0 \<or> int (length (threads pool)) \<le> i)" using Suc.prems by linarith
      then show ?thesis using True by (simp add: bind_def create_worker_def Let_def)
    qed
    ultimately show ?thesis
      using k run ids over by (intro exI [of _ "Suc k"]) simp
  qed
qed

text \<open>A pool to which new threads were added.\<close>

lemma slots_spawned:
  assumes "0 \<le> n_spawned_threads pool" and "nat (n_spawned_threads pool) + length ids \<le> length (threads pool)"
  shows "slots (pool\<lparr>threads := overwrite (threads pool) (nat (n_spawned_threads pool)) (map Some ids),
      n_spawned_threads := n_spawned_threads pool + int (length ids)\<rparr>) = slots pool @ ids"
    and "take (nat (n_spawned_threads pool) + length ids)
      (overwrite (threads pool) (nat (n_spawned_threads pool)) (map Some ids))
      = take (nat (n_spawned_threads pool)) (threads pool) @ map Some ids"
proof -
  let ?n = "nat (n_spawned_threads pool)"
  show t: "take (?n + length ids) (overwrite (threads pool) ?n (map Some ids)) = take ?n (threads pool) @ map Some ids"
    using take_overwrite [of ?n "map Some ids" "threads pool"] assms by simp
  have "nat (n_spawned_threads pool + int (length ids)) = ?n + length ids" using assms(1) by (simp add: nat_add_distrib)
  then show "slots (pool\<lparr>threads := overwrite (threads pool) ?n (map Some ids),
      n_spawned_threads := n_spawned_threads pool + int (length ids)\<rparr>) = slots pool @ ids"
    using t by (simp add: slots_def o_def)
qed

lemma pool_ok_spawned:
  assumes ok: "pool_ok pool w" and fit: "nat (n_spawned_threads pool) + k \<le> nat (max_threads pool)"
    and later: "n_calls w + k \<le> n_calls w'"
  defines "ids \<equiv> [n_calls w ..< n_calls w + k]"
  defines "pool' \<equiv> pool\<lparr>threads := overwrite (threads pool) (nat (n_spawned_threads pool)) (map Some ids),
    n_spawned_threads := n_spawned_threads pool + int k\<rparr>"
  shows "pool_ok pool' w'" and "slots pool' = slots pool @ ids"
proof -
  have n: "0 \<le> n_spawned_threads pool" using ok by (simp add: pool_ok_def INITIAL_THREADS_def)
  have len: "nat (n_spawned_threads pool) + length ids \<le> length (threads pool)"
    using fit ok by (simp add: pool_ok_def ids_def)
  show s: "slots pool' = slots pool @ ids"
    using slots_spawned(1) [OF n len] by (simp add: pool'_def ids_def)
  have nat': "nat (n_spawned_threads pool + int k) = nat (n_spawned_threads pool) + length ids"
    using n by (simp add: ids_def nat_add_distrib)
  have "None \<notin> set (take (nat (n_spawned_threads pool')) (threads pool'))"
    using ok slots_spawned(2) [OF n len] unfolding pool'_def by (auto simp: nat' pool_ok_def)
  moreover have "distinct (slots pool')" "\<forall>t \<in> set (slots pool'). t < n_calls w'"
    using ok later unfolding s by (fastforce simp: pool_ok_def ids_def)+
  moreover have "length (threads pool') = nat (max_threads pool')"
    using ok len by (simp add: pool'_def pool_ok_def)
  moreover have "n_spawned_threads pool + int k \<le> max_threads pool"
    using fit n ok unfolding pool_ok_def by linarith
  ultimately show "pool_ok pool' w'"
    using ok by (simp add: pool_ok_def) (simp add: pool'_def INITIAL_THREADS_def)
qed

text \<open>The size the watcher aims at: \<open>m\<close> is the largest size.\<close>

definition next_size :: "int \<Rightarrow> int \<Rightarrow> int \<Rightarrow> int" where
  "next_size e m n = (if 4 * e > 3 * n then min m (grow_goal n)
     else if 4 * e < n \<and> INITIAL_THREADS \<le> shrink_goal n then shrink_goal n else n)"

text \<open>What a turn does: threads leave at the end of the array, or new ones join there.\<close>

definition turned :: "int \<Rightarrow> env \<Rightarrow> ThreadPool \<Rightarrow> world \<Rightarrow> ThreadPool \<Rightarrow> world \<Rightarrow> bool" where
  "turned e E pool w pool' w' \<longleftrightarrow> pool_ok pool' w' \<and>
     pool' = pool\<lparr>threads := threads pool', n_spawned_threads := n_spawned_threads pool'\<rparr> \<and>
     (\<exists>stay gone new. slots pool = stay @ gone \<and> slots pool' = stay @ new \<and> (gone = [] \<or> new = []) \<and>
        set new \<inter> set (slots pool) = {} \<and>
        trace w' = trace w @ map Thread_Signalled (rev gone) @ map Thread_Created new) \<and>
     (calls_ok E \<longrightarrow> n_spawned_threads pool' = next_size e (max_threads pool) (n_spawned_threads pool)) \<and>
     live w' = live w \<and> open_fds w' = open_fds w \<and> n_calls w \<le> n_calls w'"

lemma pool_ok_log [simp]: "pool_ok pool (w\<lparr>log_out := l\<rparr>) = pool_ok pool w"
  by (simp add: pool_ok_def)

lemma turned_log [simp]: "turned e E pool w pool' (w'\<lparr>log_out := l\<rparr>) = turned e E pool w pool' w'"
  by (simp add: turned_def)

lemma wp_grow_pool:
  assumes ok: "pool_ok pool w" and small: "n_spawned_threads pool \<le> 1431655764"
    and load: "4 * e > 3 * n_spawned_threads pool"
    and Q: "\<And>pool' w'. turned e E pool w pool' w' \<Longrightarrow> Q pool' w'"
  shows "wp (grow_pool pool) Q E w"
proof -
  let ?n = "n_spawned_threads pool" and ?m = "max_threads pool"
  have n: "100 \<le> ?n" "?n \<le> ?m" using ok by (simp_all add: pool_ok_def INITIAL_THREADS_def)
  have goal: "grow_goal ?n \<le> INT_MAX" "?n < grow_goal ?n" using small n by (simp_all add: grow_goal_def INT_MAX_def)
  have next': "next_size e ?m ?n = min ?m (grow_goal ?n)" using load by (simp add: next_size_def)
  show ?thesis
  proof (cases "?n = ?m")
    case True
    then have "turned e E pool w pool w" using ok goal next' by (auto simp: turned_def intro: exI [of _ "slots pool"])
    then have "Q pool (w\<lparr>log_out := l\<rparr>)" for l by (intro Q) simp
    with True goal show ?thesis by (simp add: grow_pool_def wp_print)
  next
    case False
    define g where "g = (if grow_goal ?n > ?m then ?m else grow_goal ?n)"
    have g: "?n < g" "g \<le> ?m" "g = min ?m (grow_goal ?n)" using False n goal by (simp_all add: g_def)
    have "nat ?n + nat (g - ?n) \<le> nat ?m" using n(1) g(1,2) by linarith
    then have len: "nat ?n + nat (g - ?n) \<le> length (threads pool)" using ok by (simp add: pool_ok_def)
    obtain k where k: "k \<le> nat (g - ?n)" "k < nat (g - ?n) \<longrightarrow> \<not> call_ok E (n_calls w + k)"
      and run: "spawn_loop (nat (g - ?n)) ?n pool E w =
       Ret ((pool\<lparr>threads := overwrite (threads pool) (nat ?n) (map Some [n_calls w ..< n_calls w + k])\<rparr>,
             if k < nat (g - ?n) then Some (?n + int k) else None),
            w\<lparr>n_calls := n_calls w + k + (if k < nat (g - ?n) then 1 else 0),
              trace := trace w @ map Thread_Created [n_calls w ..< n_calls w + k]\<rparr>)"
      using spawn_loop_result [OF len, of E w] n by auto
    let ?ids = "[n_calls w ..< n_calls w + k]"
    let ?pool = "pool\<lparr>threads := overwrite (threads pool) (nat ?n) (map Some ?ids), n_spawned_threads := ?n + int k\<rparr>"
    let ?w = "w\<lparr>n_calls := n_calls w + k + (if k < nat (g - ?n) then 1 else 0), trace := trace w @ map Thread_Created ?ids\<rparr>"
    have fit: "nat ?n + k \<le> nat ?m" using k(1) g n by linarith
    have t: "turned e E pool w ?pool ?w"
    proof -
      have "pool_ok ?pool ?w" "slots ?pool = slots pool @ ?ids"
        using pool_ok_spawned [OF ok fit, of ?w] by simp_all
      moreover have "set ?ids \<inter> set (slots pool) = {}" using ok by (auto simp: pool_ok_def)
      moreover have "calls_ok E \<longrightarrow> ?n + int k = next_size e ?m ?n"
        using k g(1,3) unfolding next' calls_ok_def by auto
      ultimately show ?thesis
        unfolding turned_def by (intro conjI exI [of _ "slots pool"] exI [of _ "[]"] exI [of _ ?ids]) simp_all
    qed
    have "Q ?pool (?w\<lparr>log_out := l\<rparr>)" for l using t by (intro Q) simp
    moreover have "k = nat (g - ?n) \<Longrightarrow> ?n + int k = g" using g(1) by simp
    ultimately show ?thesis
      unfolding grow_pool_def Let_def g_def [symmetric] wp_bind
      using goal False k(1)
      by (cases "k < nat (g - ?n)")
        (simp_all add: wp_Ret [where m = "spawn_loop (nat (g - ?n)) ?n pool" and w = w, OF run] wp_print)
  qed
qed

lemma wp_shrink_pool:
  assumes ok: "pool_ok pool w" and load: "4 * e < n_spawned_threads pool" "\<not> 4 * e > 3 * n_spawned_threads pool"
    and Q: "\<And>pool' w'. turned e E pool w pool' w' \<Longrightarrow> Q pool' w'"
  shows "wp (shrink_pool pool) Q E w"
proof -
  let ?n = "n_spawned_threads pool"
  have n: "100 \<le> ?n" using ok by (simp add: pool_ok_def INITIAL_THREADS_def)
  have len: "length (slots pool) = nat ?n" by (rule length_slots [OF ok])
  show ?thesis
  proof (cases "shrink_goal ?n < INITIAL_THREADS \<or> shrink_goal ?n = ?n")
    case True
    then have "turned e E pool w pool w"
      using ok load by (auto simp: turned_def next_size_def intro: exI [of _ "slots pool"])
    with True show ?thesis by (simp add: shrink_pool_def Q)
  next
    case False
    let ?g = "shrink_goal ?n"
    have g: "100 \<le> ?g" "?g < ?n" using False n by (auto simp: shrink_goal_def INITIAL_THREADS_def)
    have run: "each_thread Thread_Signalled (-1) (nat (?n - ?g)) (?n - 1) pool E w
      = Ret ((), w\<lparr>trace := trace w @ map Thread_Signalled (rev (drop (nat ?g) (slots pool)))\<rparr>)"
    proof -
      have "nat ?n - nat (?n - ?g) = nat ?g" "int (nat ?n) - 1 = ?n - 1" using g by simp_all
      then show ?thesis
        using each_thread_down [OF ok, of "nat (?n - ?g)" "nat ?n" Thread_Signalled E w] g len by simp
    qed
    let ?pool = "pool\<lparr>n_spawned_threads := ?g\<rparr>"
    let ?w = "w\<lparr>trace := trace w @ map Thread_Signalled (rev (drop (nat ?g) (slots pool)))\<rparr>"
    have s: "slots ?pool = take (nat ?g) (slots pool)"
      using g by (simp add: slots_def take_map min_absorb1)
    have t: "turned e E pool w ?pool ?w"
    proof -
      have "set (take (nat ?g) (threads pool)) \<subseteq> set (take (nat ?n) (threads pool))"
        by (rule set_take_subset_set_take) (use g in simp)
      then have "None \<notin> set (take (nat ?g) (threads pool))" using ok unfolding pool_ok_def by blast
      moreover have "distinct (slots ?pool)" "\<forall>t \<in> set (slots ?pool). t < n_calls w"
        using ok unfolding s by (auto simp: pool_ok_def dest: in_set_takeD)
      ultimately have "pool_ok ?pool ?w" using ok g by (simp add: pool_ok_def INITIAL_THREADS_def)
      moreover have "?g = next_size e (max_threads pool) ?n"
        using load g by (simp add: next_size_def INITIAL_THREADS_def)
      ultimately show ?thesis
        unfolding turned_def s
        by (intro conjI exI [of _ "take (nat ?g) (slots pool)"] exI [of _ "drop (nat ?g) (slots pool)"] exI [of _ "[]"]) simp_all
    qed
    have "Q ?pool (?w\<lparr>log_out := l\<rparr>)" for l using t by (intro Q) simp
    with False show ?thesis by (simp add: shrink_pool_def Let_def wp_print
        wp_Ret [where m = "each_thread Thread_Signalled (-1) (nat (?n - ?g)) (?n - 1) pool" and w = w, OF run])
  qed
qed

lemma wp_watcher_turn:
  assumes ok: "pool_ok pool w" and small: "max_threads pool \<le> 1431655764"
    and Q: "\<And>pool' w'. turned e E pool w pool' w' \<Longrightarrow> Q pool' w'"
  shows "wp (watcher_turn e pool) Q E w"
proof -
  have n: "n_spawned_threads pool \<le> 1431655764" using ok small by (simp add: pool_ok_def)
  have "turned e E pool w pool w" if "\<not> 4 * e > 3 * n_spawned_threads pool" "\<not> 4 * e < n_spawned_threads pool"
    using ok that by (auto simp: turned_def next_size_def intro: exI [of _ "slots pool"])
  then show ?thesis
    using wp_grow_pool [OF ok n _ Q] wp_shrink_pool [OF ok _ _ Q] by (auto simp: watcher_turn_def intro: Q)
qed

end
