(* ===== verification/Pool_Properties.thy ===== *)
theory Pool_Properties
  imports Thread_Pool
begin

text \<open>
  The properties of the pool of threads: how it starts and fails to start, what it destroys, the bounds and
  the invariant the watcher keeps, that the size settles when the load does not change, and what becomes of
  the threads that are dropped.
\<close>

section \<open>Starting\<close>

lemma pool_start_result:
  fixes w :: world
  assumes "calls_ok E" and "n_spawned_threads pool = INITIAL_THREADS" and "INITIAL_THREADS \<le> max_threads pool"
    and "length (threads pool) = nat (max_threads pool)"
  defines "ids \<equiv> [n_calls w ..< n_calls w + 100]"
  defines "pool' \<equiv> pool\<lparr>threads := overwrite (threads pool) 0 (map Some ids), watcher_thread := Some (n_calls w + 100)\<rparr>"
  defines "w' \<equiv> w\<lparr>n_calls := n_calls w + 101, trace := trace w @ map Thread_Created ids @ [Watcher_Created]\<rparr>"
  shows "pool_start pool E w = Ret (Some pool', w')" and "pool_ok pool' w'" and "slots pool' = ids"
proof -
  have len: "nat 0 + 100 \<le> length (threads pool)" using assms(3,4) by (simp add: INITIAL_THREADS_def)
  obtain k where k: "k \<le> 100" "k < 100 \<longrightarrow> \<not> call_ok E (n_calls w + k)"
    and run: "spawn_loop 100 0 pool E w =
       Ret ((pool\<lparr>threads := overwrite (threads pool) (nat 0) (map Some [n_calls w ..< n_calls w + k])\<rparr>,
             if k < 100 then Some (0 + int k) else None),
            w\<lparr>n_calls := n_calls w + k + (if k < 100 then 1 else 0),
              trace := trace w @ map Thread_Created [n_calls w ..< n_calls w + k]\<rparr>)"
    using spawn_loop_result [OF len, of E w] by auto
  have "k = 100" using k assms(1) by (auto simp: calls_ok_def)
  then show "pool_start pool E w = Ret (Some pool', w')"
    using run assms(1,2)
    by (simp add: pool_start_def INITIAL_THREADS_def bind_def create_watcher_def Let_def calls_ok_def return_def
      pool'_def w'_def ids_def)
  have take: "take 100 (overwrite (threads pool) 0 (map Some ids)) = map Some ids"
    using take_overwrite [of 0 "map Some ids" "threads pool"] len by (simp add: ids_def)
  then show s: "slots pool' = ids"
    using assms(2) by (simp add: slots_def pool'_def INITIAL_THREADS_def o_def)
  have "length (overwrite (threads pool) 0 (map Some ids)) = nat (max_threads pool)"
    using assms(4) len by (simp add: ids_def)
  then show "pool_ok pool' w'"
    using assms(2,3) take unfolding pool_ok_def s
    by (auto simp: pool'_def INITIAL_THREADS_def w'_def ids_def)
qed

text \<open>What destroying a pool does, in order.\<close>

definition destroy_events :: "kill_type \<Rightarrow> ThreadPool \<Rightarrow> os_event list" where
  "destroy_events type pool = Watcher_Cancelled #
     map (if type = HARD then Thread_Cancelled else Thread_Signalled) (slots pool) @ map Thread_Joined (slots pool) @
     [Mutex_Destroyed 0, Mutex_Destroyed 1, Closed (pool_socket_fd pool)]"

definition destroyed :: "kill_type \<Rightarrow> ThreadPool \<Rightarrow> world \<Rightarrow> world" where
  "destroyed type pool w = w\<lparr>trace := trace w @ destroy_events type pool,
     live := live w - {threads_block pool, pool_block pool}, open_fds := open_fds w - {pool_socket_fd pool}\<rparr>"

lemma destroy_result:
  assumes "pool_ok pool w" and "pool_block pool \<in> live w" and "threads_block pool \<in> live w"
    and "pool_block pool \<noteq> threads_block pool"
  shows "thread_pool_destroy pool type E w = Ret ((), destroyed type pool w)"
proof -
  have n: "nat (n_spawned_threads pool) = length (slots pool)" using length_slots [OF assms(1)] by simp
  have all: "each_thread act 1 (length (slots pool)) 0 pool E w1 = Ret ((), w1\<lparr>trace := trace w1 @ map act (slots pool)\<rparr>)" for act w1
    using each_thread_up [OF assms(1), of 0 "length (slots pool)" act E w1] by simp
  obtain t where "watcher_thread pool = Some t" using assms(1) by (auto simp: pool_ok_def)
  moreover have "live w - {threads_block pool} - {pool_block pool} = live w - {threads_block pool, pool_block pool}" by blast
  ultimately show ?thesis
    using assms(2-4)
    by (cases type) (simp_all add: thread_pool_destroy_def bind_def lift_def emit_def modify_def n all free_def
      socket_close_def sys_close_def destroyed_def destroy_events_def)
qed

lemma pool_ini_result:
  assumes "1 \<le> max_connections a" and "malloc_ok E (n_malloc w)" and "malloc_ok E (Suc (n_malloc w))" and "calls_ok E"
  obtains pool w' where "thread_pool_ini fd a E w = Ret (Some pool, w')" and "pool_ok pool w'"
    and "n_spawned_threads pool = INITIAL_THREADS" and "max_threads pool = max INITIAL_THREADS (max_connections a)"
    and "trace w' = trace w @ map Thread_Created (slots pool) @ [Watcher_Created]" and "open_fds w' = open_fds w"
    and "live w' = insert (n_malloc w) (insert (Suc (n_malloc w)) (live w))" and "pool_block pool = n_malloc w"
    and "threads_block pool = Suc (n_malloc w)" and "pool_socket_fd pool = fd" and "n_calls w \<le> n_calls w'"
proof -
  let ?m = "max INITIAL_THREADS (max_connections a)" and ?p = "n_malloc w"
  let ?pool = "\<lparr>pool_block = ?p, threads_block = Suc ?p, watcher_thread = None, threads = replicate (nat ?m) None,
            n_spawned_threads = INITIAL_THREADS, n_active_threads = 0, max_threads = ?m,
            pool_socket_fd = fd, pool_server_attrs = a\<rparr>"
  have alloc: "\<exists>pool w'. pool_alloc fd a ?m E w1 = Ret (Some pool, w') \<and> pool_ok pool w' \<and>
    n_spawned_threads pool = INITIAL_THREADS \<and> max_threads pool = ?m \<and>
    trace w' = trace w @ map Thread_Created (slots pool) @ [Watcher_Created] \<and> open_fds w' = open_fds w \<and>
    live w' = insert ?p (insert (Suc ?p) (live w)) \<and> pool_block pool = ?p \<and> threads_block pool = Suc ?p \<and>
    pool_socket_fd pool = fd \<and> n_calls w \<le> n_calls w'"
    if w1: "w1 = w\<lparr>log_out := l\<rparr>" for w1 l
  proof -
    let ?w2 = "w1\<lparr>n_calls := Suc (Suc (n_calls w)), n_malloc := Suc (Suc ?p), live := insert (Suc ?p) (insert ?p (live w))\<rparr>"
    have "pool_alloc fd a ?m E w1 = pool_start ?pool E ?w2"
      using assms(2-4) by (simp add: pool_alloc_def bind_def malloc_def sys_call_def Let_def calls_ok_def w1)
    moreover note pool_start_result [OF assms(4), of ?pool ?w2]
    ultimately show ?thesis by (auto simp: w1)
  qed
  obtain l where run: "thread_pool_ini fd a E w = pool_alloc fd a ?m E (w\<lparr>log_out := l\<rparr>)"
  proof (cases "max_connections a < INITIAL_THREADS")
    case True
    then show ?thesis
      using assms(1) that [of "logged LOG_WARNING False ''maximum number of threads set to %d'' E w"]
      by (simp add: thread_pool_ini_def Let_def bind_def max_def print_warning_def print_priority_def logged_def split: if_splits)
  next
    case False
    then show ?thesis using assms(1) that [of "log_out w"] by (simp add: thread_pool_ini_def Let_def max_def)
  qed
  obtain pool w' where p: "thread_pool_ini fd a E w = Ret (Some pool, w')" "pool_ok pool w'"
    "n_spawned_threads pool = INITIAL_THREADS" "max_threads pool = ?m"
    "trace w' = trace w @ map Thread_Created (slots pool) @ [Watcher_Created]" "open_fds w' = open_fds w"
    "live w' = insert ?p (insert (Suc ?p) (live w))" "pool_block pool = ?p" "threads_block pool = Suc ?p" "pool_socket_fd pool = fd" "n_calls w \<le> n_calls w'"
    using alloc [OF refl, of l] unfolding run by blast
  then show thesis by (rule that)
qed

text \<open>C16: with memory and threads to be had, \<open>thread_pool_ini\<close> creates \<open>INITIAL_THREADS\<close> workers and the
  watcher, in a pool that satisfies the invariant and may grow to the configured number of connections (at least
  \<open>INITIAL_THREADS\<close>); destroying it, softly or not, cancels the watcher, reaches and joins every worker once,
  frees both blocks and closes the listening socket.\<close>

theorem pool_starts_and_stops:
  assumes "1 \<le> max_connections a" and "malloc_ok E (n_malloc w)" and "malloc_ok E (Suc (n_malloc w))" and "calls_ok E"
    and "heap_ok w"
  shows "\<exists>pool w'. thread_pool_ini fd a E w = Ret (Some pool, w') \<and> pool_ok pool w' \<and>
    n_spawned_threads pool = INITIAL_THREADS \<and> max_threads pool = max INITIAL_THREADS (max_connections a) \<and>
    trace w' = trace w @ map Thread_Created (slots pool) @ [Watcher_Created] \<and> open_fds w' = open_fds w \<and>
    (\<forall>type. \<exists>w''. thread_pool_destroy pool type E w' = Ret ((), w'') \<and> live w'' = live w \<and>
       open_fds w'' = open_fds w - {fd} \<and> trace w'' = trace w' @ destroy_events type pool)"
proof -
  obtain pool w' where p: "thread_pool_ini fd a E w = Ret (Some pool, w')" "pool_ok pool w'"
    "n_spawned_threads pool = INITIAL_THREADS" "max_threads pool = max INITIAL_THREADS (max_connections a)"
    "trace w' = trace w @ map Thread_Created (slots pool) @ [Watcher_Created]" "open_fds w' = open_fds w"
    "live w' = insert (n_malloc w) (insert (Suc (n_malloc w)) (live w))" "pool_block pool = n_malloc w"
    "threads_block pool = Suc (n_malloc w)" "pool_socket_fd pool = fd"
    by (rule pool_ini_result [OF assms(1-4), of fd])
  have fresh: "n_malloc w \<notin> live w" "Suc (n_malloc w) \<notin> live w" using assms(5) by (auto simp: heap_ok_def)
  have "\<exists>w''. thread_pool_destroy pool type E w' = Ret ((), w'') \<and> live w'' = live w \<and>
       open_fds w'' = open_fds w - {fd} \<and> trace w'' = trace w' @ destroy_events type pool" for type
    using destroy_result [OF p(2), of type E] p fresh by (auto simp: destroyed_def)
  with p show ?thesis by blast
qed

theorem pool_starts_and_stops_witness:
  "\<exists>pool w'. thread_pool_ini 7 demo_config demo_env demo_world = Ret (Some pool, w') \<and> pool_ok pool w' \<and>
    n_spawned_threads pool = 100 \<and> max_threads pool = 100 \<and>
    (\<forall>type. \<exists>w''. thread_pool_destroy pool type demo_env w' = Ret ((), w'') \<and> live w'' = {} \<and> open_fds w'' = {})"
proof -
  have "1 \<le> max_connections demo_config" by (simp add: demo_config_def)
  from pool_starts_and_stops [OF this _ _ demo_calls_ok demo_heap_ok, of 7] show ?thesis
    by (simp add: demo_config_def INITIAL_THREADS_def) blast
qed

lemma pool_start_fails:
  assumes "n_spawned_threads pool = INITIAL_THREADS" and "INITIAL_THREADS \<le> max_threads pool"
    and "length (threads pool) = nat (max_threads pool)" and "watcher_thread pool = None"
    and "j \<le> 100" and "\<not> call_ok E (n_calls w + j)"
  shows "pool_start pool E w = Undef Uninit_Read"
proof -
  have len: "nat 0 + 100 \<le> length (threads pool)" using assms(2,3) by (simp add: INITIAL_THREADS_def)
  obtain k where k: "k \<le> 100" "\<forall>j<k. call_ok E (n_calls w + j)"
    and run: "spawn_loop 100 0 pool E w =
       Ret ((pool\<lparr>threads := overwrite (threads pool) (nat 0) (map Some [n_calls w ..< n_calls w + k])\<rparr>,
             if k < 100 then Some (0 + int k) else None),
            w\<lparr>n_calls := n_calls w + k + (if k < 100 then 1 else 0),
              trace := trace w @ map Thread_Created [n_calls w ..< n_calls w + k]\<rparr>)"
    using spawn_loop_result [OF len, of E w] by auto
  have kill: "thread_pool_hard_destroy p E w' = Undef Uninit_Read" if "watcher_thread p = None" for p w'
    using that by (simp add: thread_pool_hard_destroy_def thread_pool_destroy_def bind_def lift_def)
  show ?thesis
  proof (cases "k < 100")
    case True
    then show ?thesis
      using run assms(1,4) by (simp add: pool_start_def INITIAL_THREADS_def bind_def print_error_def print_priority_def kill)
  next
    case False
    then have "j = 100" "k = 100" using k assms(5,6) by (auto simp: not_less le_less)
    then show ?thesis
      using run assms(1,4,6) by (simp add: pool_start_def INITIAL_THREADS_def bind_def print_error_def print_priority_def
          kill create_watcher_def Let_def)
  qed
qed

text \<open>C36: when the configuration allows no connection, or the first allocation or one of the mutexes fails,
  \<open>thread_pool_ini\<close> gives NULL, has closed the socket and keeps no memory. When anything later fails (the
  array of threads, one of the workers, the watcher), it cancels a watcher that does not exist.\<close>

theorem pool_start_failures:
  assumes "heap_ok w"
  shows "if max_connections a < 1 \<or> \<not> malloc_ok E (n_malloc w) \<or> \<not> call_ok E (n_calls w) \<or> \<not> call_ok E (Suc (n_calls w))
    then \<exists>w'. thread_pool_ini fd a E w = Ret (None, w') \<and> live w' = live w \<and> open_fds w' = open_fds w - {fd}
    else \<not> malloc_ok E (Suc (n_malloc w)) \<or> (\<exists>j \<le> 100. \<not> call_ok E (n_calls w + 2 + j)) \<longrightarrow>
      thread_pool_ini fd a E w = Undef Uninit_Read"
proof -
  let ?early = "\<not> malloc_ok E (n_malloc w) \<or> \<not> call_ok E (n_calls w) \<or> \<not> call_ok E (Suc (n_calls w))"
  have fresh: "n_malloc w \<notin> live w" using assms by (rule heap_ok_fresh)
  have first: "\<exists>w'. pool_alloc fd a m E (w\<lparr>log_out := l\<rparr>) = Ret (None, w') \<and> live w' = live w \<and> open_fds w' = open_fds w - {fd}"
    if ?early for m l
    using that fresh
    by (auto simp: pool_alloc_def bind_def malloc_def sys_call_def Let_def return_def print_error_def print_priority_def
      socket_close_def sys_close_def modify_def free_def emit_def)
  have later: "pool_alloc fd a m E (w\<lparr>log_out := l\<rparr>) = Undef Uninit_Read"
    if "\<not> ?early" and fails: "\<not> malloc_ok E (Suc (n_malloc w)) \<or> (\<exists>j \<le> 100. \<not> call_ok E (n_calls w + 2 + j))"
      and m: "INITIAL_THREADS \<le> m" for m l
  proof (cases "malloc_ok E (Suc (n_malloc w))")
    case False
    then show ?thesis
      using that(1) by (simp add: pool_alloc_def bind_def malloc_def sys_call_def Let_def return_def print_error_def
        print_priority_def modify_def emit_def undef_def)
  next
    case True
    with fails obtain j where j: "j \<le> 100" "\<not> call_ok E (n_calls w + 2 + j)" by blast
    let ?p = "n_malloc w"
    let ?pool = "\<lparr>pool_block = ?p, threads_block = Suc ?p, watcher_thread = None, threads = replicate (nat m) None,
            n_spawned_threads = INITIAL_THREADS, n_active_threads = 0, max_threads = m,
            pool_socket_fd = fd, pool_server_attrs = a\<rparr>"
    let ?w2 = "w\<lparr>log_out := l, n_calls := Suc (Suc (n_calls w)), n_malloc := Suc (Suc ?p), live := insert (Suc ?p) (insert ?p (live w))\<rparr>"
    have "pool_alloc fd a m E (w\<lparr>log_out := l\<rparr>) = pool_start ?pool E ?w2"
      using that(1) True by (simp add: pool_alloc_def bind_def malloc_def sys_call_def Let_def)
    moreover have "pool_start ?pool E ?w2 = Undef Uninit_Read"
      using j m by (intro pool_start_fails) simp_all
    ultimately show ?thesis by simp
  qed
  have run: "\<exists>l. thread_pool_ini fd a E w = pool_alloc fd a (max INITIAL_THREADS (max_connections a)) E (w\<lparr>log_out := l\<rparr>)"
    if "\<not> max_connections a < 1"
  proof (cases "max_connections a < INITIAL_THREADS")
    case True
    with that show ?thesis
      by (intro exI [of _ "logged LOG_WARNING False ''maximum number of threads set to %d'' E w"])
        (simp add: thread_pool_ini_def Let_def bind_def max_def print_warning_def print_priority_def logged_def split: if_splits)
  next
    case False
    with that show ?thesis by (intro exI [of _ "log_out w"]) (simp add: thread_pool_ini_def Let_def max_def)
  qed
  show ?thesis
  proof (cases "max_connections a < 1")
    case True
    then show ?thesis
      by (simp add: thread_pool_ini_def Let_def bind_def print_error_def print_priority_def socket_close_def sys_close_def
        modify_def return_def)
  next
    case False
    then obtain l where "thread_pool_ini fd a E w = pool_alloc fd a (max INITIAL_THREADS (max_connections a)) E (w\<lparr>log_out := l\<rparr>)"
      using run by blast
    then show ?thesis using False first [of _ l] later [of _ l] by auto
  qed
qed

text \<open>A machine that starts 50 threads and no more.\<close>

theorem pool_start_failures_witness:
  "(\<exists>w'. thread_pool_ini 7 (demo_config\<lparr>max_connections := 0\<rparr>) demo_env demo_world = Ret (None, w') \<and>
      live w' = {} \<and> open_fds w' = {}) \<and>
   thread_pool_ini 7 demo_config (demo_env\<lparr>call_ok := \<lambda>k. k < 50\<rparr>) demo_world = Undef Uninit_Read"
proof
  show "\<exists>w'. thread_pool_ini 7 (demo_config\<lparr>max_connections := 0\<rparr>) demo_env demo_world = Ret (None, w') \<and>
      live w' = {} \<and> open_fds w' = {}"
    using pool_start_failures [OF demo_heap_ok, of "demo_config\<lparr>max_connections := 0\<rparr>" demo_env 7] by simp
  have "\<exists>j \<le> 100. \<not> call_ok (demo_env\<lparr>call_ok := \<lambda>k. k < 50\<rparr>) (n_calls demo_world + 2 + j)"
    by (rule exI [of _ 48]) simp
  then show "thread_pool_ini 7 demo_config (demo_env\<lparr>call_ok := \<lambda>k. k < 50\<rparr>) demo_world = Undef Uninit_Read"
    using pool_start_failures [OF demo_heap_ok, of demo_config "demo_env\<lparr>call_ok := \<lambda>k. k < 50\<rparr>" 7]
    by (simp add: demo_config_def)
qed

section \<open>The watcher\<close>

text \<open>C10: a turn of the watcher, whatever load it reads and whether or not threads can be created, returns
  and keeps the invariant of the pool: between \<open>INITIAL_THREADS\<close> and the largest number of threads, every known
  thread in the array once. Threads only join or leave at the end of the array, those that leave are signalled,
  and when threads can be created the new size is the one aimed at.\<close>

theorem watcher_keeps_the_pool:
  assumes "pool_ok pool w" and "max_threads pool \<le> 1431655764"
  shows "\<exists>pool' w'. watcher_turn e pool E w = Ret (pool', w') \<and> turned e E pool w pool' w'"
proof -
  have "wp (watcher_turn e pool) (\<lambda>pool' w'. turned e E pool w pool' w') E w"
    by (rule wp_watcher_turn [OF assms])
  then show ?thesis by (elim wpE) auto
qed

definition demo_pool :: ThreadPool where
  "demo_pool = \<lparr>pool_block = 0, threads_block = 1, watcher_thread = Some 400, threads = map Some [0 ..< 200],
     n_spawned_threads = 200, n_active_threads = 0, max_threads = 200, pool_socket_fd = 7, pool_server_attrs = demo_config\<rparr>"

definition demo_pool_world :: world where
  "demo_pool_world = demo_world\<lparr>n_calls := 500, n_malloc := 2, live := {0, 1}\<rparr>"

lemma demo_slots: "slots demo_pool = [0 ..< 200]"
  by (simp add: slots_def demo_pool_def o_def)

lemma demo_pool_ok: "pool_ok demo_pool demo_pool_world"
  unfolding pool_ok_def demo_slots by (auto simp: demo_pool_def demo_pool_world_def INITIAL_THREADS_def)

lemma demo_pool_sizes: "n_spawned_threads demo_pool = 200" "max_threads demo_pool = 200"
  by (simp_all add: demo_pool_def)

theorem watcher_keeps_the_pool_witness:
  "\<exists>pool' w'. watcher_turn 10 demo_pool demo_env demo_pool_world = Ret (pool', w') \<and>
     pool_ok pool' w' \<and> n_spawned_threads pool' = 150"
proof -
  have "next_size 10 200 200 = 150" by (simp add: next_size_def shrink_goal_def INITIAL_THREADS_def)
  then show ?thesis
    using watcher_keeps_the_pool [OF demo_pool_ok, of 10 demo_env] demo_calls_ok
    by (auto simp: demo_pool_sizes turned_def)
qed

text \<open>With a constant load the size settles: a pool that has grown is not made smaller by the same load, nor
  the other way round.\<close>

lemma no_shrink_after_growth:
  assumes "4 * e > 3 * n" and "100 \<le> n"
  shows "\<not> 4 * e < min m (grow_goal n)"
proof -
  have "2 * grow_goal n \<le> 3 * n + 1" by (simp add: grow_goal_def)
  then show ?thesis using assms by (simp add: min_def)
qed

lemma no_growth_after_shrinking:
  assumes "4 * e < n" and "100 \<le> n"
  shows "\<not> 4 * e > 3 * shrink_goal n"
proof -
  have "4 * shrink_goal n \<ge> 3 * n" unfolding shrink_goal_def by linarith
  then show ?thesis using assms by linarith
qed

lemma next_size_range: "INITIAL_THREADS \<le> n \<Longrightarrow> n \<le> m \<Longrightarrow> INITIAL_THREADS \<le> next_size e m n \<and> next_size e m n \<le> m"
  by (auto simp: next_size_def grow_goal_def shrink_goal_def INITIAL_THREADS_def)

lemma grows_until_settled:
  assumes "INITIAL_THREADS \<le> n" and "n \<le> m" and "4 * e > 3 * n"
  shows "\<exists>k. next_size e m ((next_size e m ^^ k) n) = (next_size e m ^^ k) n"
  using assms
proof (induction "nat (m - n)" arbitrary: n rule: less_induct)
  case less
  let ?n = "next_size e m n"
  have n': "?n = min m (grow_goal n)" using less.prems(3) by (simp add: next_size_def)
  show ?case
  proof (cases "n = m \<or> \<not> 4 * e > 3 * ?n")
    case True
    then have "next_size e m ?n = ?n"
    proof
      assume "n = m"
      then have "?n = n" using less.prems(1) unfolding n' by (simp add: grow_goal_def INITIAL_THREADS_def)
      then show ?thesis by (simp only:)
    next
      assume "\<not> 4 * e > 3 * ?n"
      moreover have "\<not> 4 * e < ?n"
        unfolding n' using less.prems by (intro no_shrink_after_growth) (simp_all add: INITIAL_THREADS_def)
      ultimately show ?thesis by (simp only: next_size_def [of e m ?n] if_False simp_thms)
    qed
    then show ?thesis by (intro exI [of _ 1]) simp
  next
    case False
    have "n < ?n" using False less.prems by (auto simp: n' grow_goal_def INITIAL_THREADS_def)
    moreover have "INITIAL_THREADS \<le> ?n" "?n \<le> m" using next_size_range [OF less.prems(1,2)] by blast+
    ultimately obtain k where "next_size e m ((next_size e m ^^ k) ?n) = (next_size e m ^^ k) ?n"
      using less.hyps [of ?n] False by auto
    then show ?thesis by (intro exI [of _ "Suc k"]) (simp add: funpow_swap1)
  qed
qed

lemma shrinks_until_settled:
  assumes "INITIAL_THREADS \<le> n" and "n \<le> m" and "\<not> 4 * e > 3 * n"
  shows "\<exists>k. next_size e m ((next_size e m ^^ k) n) = (next_size e m ^^ k) n"
  using assms
proof (induction "nat n" arbitrary: n rule: less_induct)
  case less
  let ?n = "next_size e m n"
  show ?case
  proof (cases "?n = n")
    case True
    then show ?thesis by (intro exI [of _ 0]) simp
  next
    case False
    then have s: "4 * e < n" "?n = shrink_goal n" using less.prems(3) by (auto simp: next_size_def split: if_splits)
    have "\<not> 4 * e > 3 * ?n"
      unfolding s(2) using s(1) less.prems by (intro no_growth_after_shrinking) (simp_all add: INITIAL_THREADS_def)
    moreover have "?n < n" using False s(2) less.prems(1) by (auto simp: shrink_goal_def INITIAL_THREADS_def)
    moreover have "INITIAL_THREADS \<le> ?n" "?n \<le> m" using next_size_range [OF less.prems(1,2)] by blast+
    moreover have "nat ?n < nat n" using calculation by (simp add: INITIAL_THREADS_def)
    ultimately obtain k where "next_size e m ((next_size e m ^^ k) ?n) = (next_size e m ^^ k) ?n"
      using less.hyps [of ?n] by auto
    then show ?thesis by (intro exI [of _ "Suc k"]) (simp add: funpow_swap1)
  qed
qed

fun watcher_turns :: "nat \<Rightarrow> int \<Rightarrow> ThreadPool \<Rightarrow> ThreadPool prog" where
  "watcher_turns 0 executing_threads pool = return pool"
| "watcher_turns (Suc k) executing_threads pool =
     bind (watcher_turn executing_threads pool) (watcher_turns k executing_threads)"

lemma wp_watcher_turns:
  assumes "calls_ok E"
  shows "pool_ok pool w \<Longrightarrow> max_threads pool \<le> 1431655764 \<Longrightarrow>
    (\<And>pool' w'. pool_ok pool' w' \<Longrightarrow> max_threads pool' = max_threads pool \<Longrightarrow>
       n_spawned_threads pool' = (next_size e (max_threads pool) ^^ k) (n_spawned_threads pool) \<Longrightarrow>
       (\<forall>j<k. (next_size e (max_threads pool) ^^ Suc j) (n_spawned_threads pool) = n_spawned_threads pool) \<longrightarrow>
         trace w' = trace w \<and> slots pool' = slots pool \<Longrightarrow> Q pool' w') \<Longrightarrow>
    wp (watcher_turns k e pool) Q E w"
proof (induction k arbitrary: pool w)
  case 0
  then show ?case by simp
next
  case (Suc k)
  let ?f = "next_size e (max_threads pool)" and ?n = "n_spawned_threads pool"
  show ?case
    unfolding watcher_turns.simps wp_bind
  proof (rule wp_watcher_turn [OF Suc.prems(1,2)])
    fix pool1 w1
    assume t: "turned e E pool w pool1 w1"
    obtain stay gone new where p: "slots pool = stay @ gone" "slots pool1 = stay @ new" "gone = [] \<or> new = []"
      "trace w1 = trace w @ map Thread_Signalled (rev gone) @ map Thread_Created new"
      using t unfolding turned_def by blast
    have ok1: "pool_ok pool1 w1" and n1: "n_spawned_threads pool1 = ?f ?n"
      using t assms by (auto simp: turned_def)
    have "pool1 = pool\<lparr>threads := threads pool1, n_spawned_threads := n_spawned_threads pool1\<rparr>"
      using t unfolding turned_def by blast
    then have m1: "max_threads pool1 = max_threads pool" by (metis ThreadPool.simps(7,16,17) ThreadPool.select_convs ThreadPool.update_convs ThreadPool.surjective)
    show "wp (watcher_turns k e pool1) Q E w1"
    proof (rule Suc.IH [OF ok1])
      show "max_threads pool1 \<le> 1431655764" using m1 Suc.prems(2) by simp
      fix pool' w'
      assume s: "pool_ok pool' w'" "max_threads pool' = max_threads pool1"
        "n_spawned_threads pool' = (next_size e (max_threads pool1) ^^ k) (n_spawned_threads pool1)"
        "(\<forall>j<k. (next_size e (max_threads pool1) ^^ Suc j) (n_spawned_threads pool1) = n_spawned_threads pool1) \<longrightarrow>
         trace w' = trace w1 \<and> slots pool' = slots pool1"
      show "Q pool' w'"
      proof (rule Suc.prems(3) [OF s(1)])
        show "max_threads pool' = max_threads pool" using s(2) m1 by simp
        show "n_spawned_threads pool' = (?f ^^ Suc k) ?n"
          using s(3) n1 m1 by (simp add: funpow_swap1)
        show "(\<forall>j<Suc k. (?f ^^ Suc j) ?n = ?n) \<longrightarrow> trace w' = trace w \<and> slots pool' = slots pool"
        proof
          assume fixed: "\<forall>j<Suc k. (?f ^^ Suc j) ?n = ?n"
          then have f: "?f ?n = ?n" by (auto dest: spec [of _ 0])
          have "length (slots pool1) = length (slots pool)"
            using length_slots [OF ok1] length_slots [OF Suc.prems(1)] n1 f by simp
          then have none: "gone = []" "new = []" using p by auto
          have "\<forall>j<k. (next_size e (max_threads pool1) ^^ Suc j) (n_spawned_threads pool1) = n_spawned_threads pool1"
            using fixed n1 f m1 by simp
          with s(4) none p show "trace w' = trace w \<and> slots pool' = slots pool" by simp
        qed
      qed
    qed
  qed
qed

text \<open>C17: when the number of active threads stays what it is, the watcher comes to rest after finitely many
  turns: from then on no turn creates or signals a thread, and either the load is below three quarters of the
  pool, or the pool has its largest size.\<close>

theorem watcher_settles:
  assumes "pool_ok pool w" and "max_threads pool \<le> 1431655764" and "calls_ok E"
  shows "\<exists>k pool' w'. watcher_turns k e pool E w = Ret (pool', w') \<and> pool_ok pool' w' \<and>
    (4 * e \<le> 3 * n_spawned_threads pool' \<or> n_spawned_threads pool' = max_threads pool') \<and>
    (\<forall>j. \<exists>pool'' w''. watcher_turns j e pool' E w' = Ret (pool'', w'') \<and> slots pool'' = slots pool' \<and> trace w'' = trace w')"
proof -
  let ?f = "next_size e (max_threads pool)" and ?n = "n_spawned_threads pool"
  have n: "INITIAL_THREADS \<le> ?n" "?n \<le> max_threads pool" using assms(1) by (simp_all add: pool_ok_def)
  obtain k where k: "?f ((?f ^^ k) ?n) = (?f ^^ k) ?n"
  proof (cases "4 * e > 3 * ?n")
    case True
    show thesis by (rule exE [OF grows_until_settled [OF n True]], rule that)
  next
    case False
    show thesis by (rule exE [OF shrinks_until_settled [OF n False]], rule that)
  qed
  have "wp (watcher_turns k e pool) (\<lambda>pool' w'. pool_ok pool' w' \<and> max_threads pool' = max_threads pool \<and>
      n_spawned_threads pool' = (?f ^^ k) ?n) E w"
    by (rule wp_watcher_turns [OF assms(3,1,2)]) simp
  then obtain pool' w' where p: "watcher_turns k e pool E w = Ret (pool', w')" "pool_ok pool' w'"
    "max_threads pool' = max_threads pool" "n_spawned_threads pool' = (?f ^^ k) ?n"
    by (elim wpE) auto
  have fixed: "?f (n_spawned_threads pool') = n_spawned_threads pool'" using k p(4) by simp
  then have stay: "(?f ^^ j) (n_spawned_threads pool') = n_spawned_threads pool'" for j by (induction j) simp_all
  have rest: "wp (watcher_turns j e pool') (\<lambda>pool'' w''. slots pool'' = slots pool' \<and> trace w'' = trace w') E w'" for j
  proof (rule wp_watcher_turns [OF assms(3) p(2), where e = e])
    show "max_threads pool' \<le> 1431655764" using assms(2) p(3) by simp
    fix pool'' w''
    assume "(\<forall>i<j. (next_size e (max_threads pool') ^^ Suc i) (n_spawned_threads pool') = n_spawned_threads pool') \<longrightarrow>
         trace w'' = trace w' \<and> slots pool'' = slots pool'"
    moreover have "(next_size e (max_threads pool') ^^ Suc i) (n_spawned_threads pool') = n_spawned_threads pool'" for i
      unfolding p(3) by (rule stay)
    ultimately show "slots pool'' = slots pool' \<and> trace w'' = trace w'" by blast
  qed
  have "\<exists>pool'' w''. watcher_turns j e pool' E w' = Ret (pool'', w'') \<and> slots pool'' = slots pool' \<and> trace w'' = trace w'" for j
    by (rule wpE [OF rest [of j]]) blast
  moreover have "4 * e \<le> 3 * n_spawned_threads pool' \<or> n_spawned_threads pool' = max_threads pool'"
  proof (rule ccontr)
    assume c: "\<not> ?thesis"
    then have "min (max_threads pool) (grow_goal (n_spawned_threads pool')) = n_spawned_threads pool'"
      using fixed p(3) by (simp add: next_size_def)
    moreover have "100 \<le> n_spawned_threads pool'" using p(2) by (simp add: pool_ok_def INITIAL_THREADS_def)
    then have "n_spawned_threads pool' < grow_goal (n_spawned_threads pool')" by (simp add: grow_goal_def)
    ultimately show False using c p(3) by (simp add: min_def split: if_splits)
  qed
  ultimately show ?thesis using p(1,2) by blast
qed

theorem watcher_settles_witness:
  "\<exists>k pool' w'. watcher_turns k 10 demo_pool demo_env demo_pool_world = Ret (pool', w') \<and> pool_ok pool' w' \<and>
    (40 \<le> 3 * n_spawned_threads pool' \<or> n_spawned_threads pool' = max_threads pool')"
  using watcher_settles [OF demo_pool_ok _ demo_calls_ok, of 10] by (auto simp: demo_pool_sizes)

text \<open>C33: threads that the watcher drops are signalled but never joined. When the pool is destroyed before they
  have ended, by either kind of destruction, the blocks they still use are freed.\<close>

theorem dropped_threads_are_never_joined:
  assumes "pool_ok pool w" and "max_threads pool \<le> 1431655764" and "calls_ok E"
    and "4 * e < n_spawned_threads pool" and "0 \<le> e" and "134 \<le> n_spawned_threads pool"
    and "pool_block pool \<in> live w" and "threads_block pool \<in> live w" and "pool_block pool \<noteq> threads_block pool"
  shows "\<exists>pool' w' w'' t. watcher_turn e pool E w = Ret (pool', w') \<and>
    thread_pool_destroy pool' type E w' = Ret ((), w'') \<and> t \<in> set (slots pool) \<and>
    trace w' = trace w @ map Thread_Signalled (rev (drop (nat (shrink_goal (n_spawned_threads pool))) (slots pool))) \<and>
    Thread_Signalled t \<in> set (drop (length (trace w)) (trace w')) \<and>
    Thread_Joined t \<notin> set (drop (length (trace w)) (trace w'')) \<and>
    pool_block pool \<notin> live w'' \<and> threads_block pool \<notin> live w''"
proof -
  let ?n = "n_spawned_threads pool"
  have goal: "100 \<le> shrink_goal ?n" "shrink_goal ?n < ?n"
    using assms(6) by (auto simp: shrink_goal_def)
  have next': "next_size e (max_threads pool) ?n = shrink_goal ?n"
    using assms(4-6) goal by (simp add: next_size_def INITIAL_THREADS_def)
  have "wp (watcher_turn e pool) (\<lambda>pool' w'. turned e E pool w pool' w') E w"
    by (rule wp_watcher_turn [OF assms(1,2)])
  then obtain pool' w' where run: "watcher_turn e pool E w = Ret (pool', w')" and t: "turned e E pool w pool' w'"
    by (elim wpE) auto
  obtain stay gone new where p: "slots pool = stay @ gone" "slots pool' = stay @ new" "gone = [] \<or> new = []"
    "trace w' = trace w @ map Thread_Signalled (rev gone) @ map Thread_Created new"
    using t unfolding turned_def by blast
  have ok': "pool_ok pool' w'" and n': "n_spawned_threads pool' = shrink_goal ?n" "live w' = live w"
    and same: "pool' = pool\<lparr>threads := threads pool', n_spawned_threads := n_spawned_threads pool'\<rparr>"
    using t assms(3) next' unfolding turned_def by auto
  have blocks: "pool_block pool' = pool_block pool" "threads_block pool' = threads_block pool"
    by (subst same, simp)+
  have "length (slots pool') < length (slots pool)"
    using length_slots [OF ok'] length_slots [OF assms(1)] n'(1) goal by simp
  then have gone: "gone \<noteq> []" "new = []" using p by auto
  have stay: "length stay = nat (shrink_goal ?n)" using length_slots [OF ok'] p(2) gone n' by simp
  have drop: "gone = drop (nat (shrink_goal ?n)) (slots pool)" using p(1) stay by simp
  obtain x where x: "x \<in> set gone" using gone(1) by (cases gone) auto
  have "distinct (slots pool)" using assms(1) by (simp add: pool_ok_def)
  then have "x \<notin> set (slots pool')" using x p gone by auto
  have kill: "thread_pool_destroy pool' type E w' = Ret ((), destroyed type pool' w')"
    by (rule destroy_result [OF ok']) (use assms(7-9) blocks n'(2) in simp_all)
  have "Thread_Joined x \<notin> set (drop (length (trace w)) (trace (destroyed type pool' w')))"
    using \<open>x \<notin> set (slots pool')\<close> p(4) gone by (auto simp: destroyed_def destroy_events_def)
  moreover have "Thread_Signalled x \<in> set (drop (length (trace w)) (trace w'))" using p(4) x by simp
  moreover have "pool_block pool \<notin> live (destroyed type pool' w')" "threads_block pool \<notin> live (destroyed type pool' w')"
    by (simp_all add: destroyed_def blocks)
  moreover have "trace w' = trace w @ map Thread_Signalled (rev (drop (nat (shrink_goal ?n)) (slots pool)))"
    using p(4) gone(2) drop by simp
  moreover have "x \<in> set (slots pool)" using x p(1) by simp
  ultimately show ?thesis using run kill by blast
qed

theorem dropped_threads_are_never_joined_witness:
  "\<exists>pool' w' w'' t. watcher_turn 10 demo_pool demo_env demo_pool_world = Ret (pool', w') \<and>
    thread_pool_destroy pool' SOFT demo_env w' = Ret ((), w'') \<and>
    Thread_Signalled t \<in> set (trace w') \<and> Thread_Joined t \<notin> set (trace w'') \<and> 0 \<notin> live w'' \<and> 1 \<notin> live w''"
proof -
  have "trace demo_pool_world = []" by (simp add: demo_pool_world_def)
  moreover have "pool_block demo_pool = 0" "threads_block demo_pool = 1" by (simp_all add: demo_pool_def)
  moreover have "\<exists>pool' w' w'' t. watcher_turn 10 demo_pool demo_env demo_pool_world = Ret (pool', w') \<and>
    thread_pool_destroy pool' SOFT demo_env w' = Ret ((), w'') \<and> t \<in> set (slots demo_pool) \<and>
    trace w' = trace demo_pool_world @
      map Thread_Signalled (rev (drop (nat (shrink_goal (n_spawned_threads demo_pool))) (slots demo_pool))) \<and>
    Thread_Signalled t \<in> set (drop (length (trace demo_pool_world)) (trace w')) \<and>
    Thread_Joined t \<notin> set (drop (length (trace demo_pool_world)) (trace w'')) \<and>
    pool_block demo_pool \<notin> live w'' \<and> threads_block demo_pool \<notin> live w''"
    by (rule dropped_threads_are_never_joined [OF demo_pool_ok _ demo_calls_ok])
      (simp_all add: demo_pool_def demo_pool_world_def)
  ultimately show ?thesis by auto
qed

end
