(* ===== verification/Server.thy ===== *)
theory Server
  imports Pool_Properties
begin

text \<open>
  The process from its start to its end, src/server.c: load the configuration, open the socket, start the
  pool, wait for a signal, stop the pool. What happens meanwhile is given to the model as arguments: the loads
  the watcher reads while the server runs, the signals that arrive after both handlers are installed but before
  the process waits for one, and those that arrive while it waits. A signal that arrives before its handler
  is installed ends the process at once, and is not modelled.
\<close>

section \<open>The code\<close>

definition MAX_QUEUE_LEN :: int where "MAX_QUEUE_LEN = 128"
definition CONFIG_FILE :: string where "CONFIG_FILE = ''/etc/rask/rask.conf''"

datatype signal = SIGINT | SIGTERM

definition SIGINT_handler :: "kill_type prog" where
  "SIGINT_handler =
     bind (print_info ''SIGINT captured. Soft killing threads and finishing...'') (\<lambda>_. return SOFT)"

definition SIGTERM_handler :: "kill_type prog" where
  "SIGTERM_handler =
     bind (print_info ''SIGTERM captured. Hard killing threads and finishing...'') (\<lambda>_. return HARD)"

text \<open>The handlers run in the order of the signals; each stores the kind of stop, a global variable whose first
  value is 0, which is \<open>HARD\<close>.\<close>

fun deliver :: "signal list \<Rightarrow> kill_type \<Rightarrow> kill_type prog" where
  "deliver [] type = return type"
| "deliver (s # ss) type =
     bind (case s of SIGINT \<Rightarrow> SIGINT_handler | SIGTERM \<Rightarrow> SIGTERM_handler) (deliver ss)"

text \<open>The turns the watcher makes meanwhile.\<close>

fun watcher_run :: "int list \<Rightarrow> ThreadPool \<Rightarrow> ThreadPool prog" where
  "watcher_run [] pool = return pool"
| "watcher_run (e # loads) pool = bind (watcher_turn e pool) (watcher_run loads)"

text \<open>The two ways out of \<open>main\<close> after the pool exists: an error, in which the configuration is freed first, and
  the wait for a signal; a wait that no signal ends does not finish.\<close>

definition main_error :: "string \<Rightarrow> config \<Rightarrow> ThreadPool \<Rightarrow> int prog" where
  "main_error message server_attrs pool =
     bind (print_error message) (\<lambda>_.
     bind (config_destroy server_attrs) (\<lambda>_.
     bind (thread_pool_hard_destroy pool) (\<lambda>_.
     return 1)))"

text \<open>The last branch of the source, for a type that is neither soft nor hard, has no counterpart: the variable is never
  given another value.\<close>

definition main_wait :: "int list \<Rightarrow> signal list \<Rightarrow> signal list \<Rightarrow> config \<Rightarrow> ThreadPool \<Rightarrow> int prog" where
  "main_wait loads early late server_attrs pool =
     bind (deliver early HARD) (\<lambda>type.
     bind (watcher_run loads pool) (\<lambda>pool.
     case late of
       [] \<Rightarrow> unfinished
     | s # _ \<Rightarrow>
         bind (deliver [s] type) (\<lambda>type.
         bind (if type = SOFT then thread_pool_soft_destroy pool
               else thread_pool_hard_destroy pool) (\<lambda>_.
         bind (config_destroy server_attrs) (\<lambda>_.
         return 0)))))"

definition main_pool :: "int list \<Rightarrow> signal list \<Rightarrow> signal list \<Rightarrow> config \<Rightarrow> ThreadPool \<Rightarrow> int prog" where
  "main_pool loads early late server_attrs pool =
     bind sys_call (\<lambda>unblocked.
     if \<not> unblocked then main_error ''failed to unblock signal in father'' server_attrs pool
     else bind sys_call (\<lambda>sigint.
     if \<not> sigint then main_error ''failed to create SIGINT handler'' server_attrs pool
     else bind sys_call (\<lambda>sigterm.
     if \<not> sigterm then main_error ''failed to create SIGTERM handler'' server_attrs pool
     else main_wait loads early late server_attrs pool)))"

definition main_socket :: "int list \<Rightarrow> signal list \<Rightarrow> signal list \<Rightarrow> config \<Rightarrow> int \<Rightarrow> int prog" where
  "main_socket loads early late server_attrs socket_fd =
     bind sys_call (\<lambda>blocked.
     if \<not> blocked
     then bind (print_error ''failed to block signal in father'') (\<lambda>_.
          bind (socket_close socket_fd) (\<lambda>_.
          bind (config_destroy server_attrs) (\<lambda>_.
          return 1)))
     else bind (thread_pool_ini socket_fd server_attrs) (\<lambda>pool. case pool of
       None \<Rightarrow> bind (config_destroy server_attrs) (\<lambda>_. return 1)
     | Some pool \<Rightarrow> main_pool loads early late server_attrs pool))"

definition main :: "int list \<Rightarrow> signal list \<Rightarrow> signal list \<Rightarrow> int prog" where
  "main loads early late =
     bind (config_load CONFIG_FILE) (\<lambda>server_attrs. case server_attrs of
       None \<Rightarrow> return 1
     | Some server_attrs \<Rightarrow>
         bind (set_logging_limit (log_priority server_attrs)) (\<lambda>_.
         bind (socket_open (listen_port server_attrs) MAX_QUEUE_LEN) (\<lambda>socket_fd.
         if socket_fd < 0
         then bind (config_destroy server_attrs) (\<lambda>_. return 1)
         else main_socket loads early late server_attrs socket_fd)))"

section \<open>Facts\<close>

lemma wp_deliver:
  assumes "\<And>l. Q (case rev ss of [] \<Rightarrow> type | s # _ \<Rightarrow> if s = SIGINT then SOFT else HARD) (w\<lparr>log_out := l\<rparr>)"
  shows "wp (deliver ss type) Q E w"
  using assms
proof (induction ss arbitrary: type w)
  case Nil
  from Nil [of "log_out w"] show ?case by simp
next
  case (Cons s ss)
  have "wp (deliver ss t) Q E (w\<lparr>log_out := l\<rparr>)" if "t = (if s = SIGINT then SOFT else HARD)" for t l
    using Cons.prems that by (intro Cons.IH) (auto split: list.splits)
  then show ?case by (cases s) (simp_all add: SIGINT_handler_def SIGTERM_handler_def wp_print)
qed

text \<open>The pool after some turns of the watcher: the same blocks and the same socket.\<close>

definition same_pool :: "ThreadPool \<Rightarrow> world \<Rightarrow> ThreadPool \<Rightarrow> world \<Rightarrow> bool" where
  "same_pool pool w pool' w' \<longleftrightarrow> pool_ok pool' w' \<and> pool_block pool' = pool_block pool \<and>
     threads_block pool' = threads_block pool \<and> pool_socket_fd pool' = pool_socket_fd pool \<and>
     max_threads pool' = max_threads pool \<and> live w' = live w \<and> open_fds w' = open_fds w"

lemma turned_same_pool: "turned e E pool w pool' w' \<Longrightarrow> same_pool pool w pool' w'"
  unfolding turned_def same_pool_def by (metis ThreadPool.select_convs ThreadPool.surjective ThreadPool.update_convs)

lemma wp_watcher_run:
  "pool_ok pool w \<Longrightarrow> max_threads pool \<le> 1431655764 \<Longrightarrow> (\<And>pool' w'. same_pool pool w pool' w' \<Longrightarrow> Q pool' w') \<Longrightarrow>
   wp (watcher_run loads pool) Q E w"
proof (induction loads arbitrary: pool w)
  case Nil
  then show ?case by (simp add: same_pool_def)
next
  case (Cons e loads)
  show ?case
    unfolding watcher_run.simps wp_bind
  proof (rule wp_watcher_turn [OF Cons.prems(1,2)])
    fix pool1 w1
    assume "turned e E pool w pool1 w1"
    then have s: "same_pool pool w pool1 w1" by (rule turned_same_pool)
    show "wp (watcher_run loads pool1) Q E w1"
      by (rule Cons.IH) (use s Cons.prems(2,3) in \<open>auto simp: same_pool_def\<close>)
  qed
qed

lemma socket_open_result:
  assumes "calls_ok E" and "0 \<le> port" and "0 \<le> n"
  shows "socket_open port n E w = Ret (next_fd w, w\<lparr>n_calls := n_calls w + 4, next_fd := next_fd w + 1,
    open_fds := insert (next_fd w) (open_fds w)\<rparr>)"
  using assms by (simp add: socket_open_def bind_def sys_call_def new_fd_def return_def calls_ok_def)

text \<open>Waiting, and stopping in the way the signal asks for.\<close>

lemma wp_main_wait:
  assumes ok: "pool_ok pool w" and small: "max_threads pool \<le> 1431655764"
    and blocks: "pool_block pool \<in> live w" "threads_block pool \<in> live w" "pool_block pool \<noteq> threads_block pool"
    and conf: "config_held c w0 w1" "config_blocks c \<subseteq> live w - {pool_block pool, threads_block pool}"
    and Q: "\<And>pool' w'. live w' = live w - {pool_block pool, threads_block pool} - config_blocks c \<Longrightarrow>
      open_fds w' = open_fds w - {pool_socket_fd pool} \<Longrightarrow>
      \<exists>tr. trace w' = tr @ destroy_events (if s = SIGINT then SOFT else HARD) pool' \<Longrightarrow>
      pool_ok pool' w' \<Longrightarrow> pool_socket_fd pool' = pool_socket_fd pool \<Longrightarrow> Q 0 w'"
  shows "wp (main_wait loads early (s # late) c pool) Q E w"
proof -
  let ?type = "if s = SIGINT then SOFT else HARD"
  have stop: "wp (if type = SOFT then thread_pool_soft_destroy pool' else thread_pool_hard_destroy pool')
      (\<lambda>_. wp (config_destroy c) (\<lambda>_. Q 0) E) E w2"
    if same: "same_pool pool w pool' (w2\<lparr>log_out := l\<rparr>)" and type: "type = ?type" for type pool' w2 l
  proof -
    have s: "pool_ok pool' w2" "pool_block pool' = pool_block pool" "threads_block pool' = threads_block pool"
      "pool_socket_fd pool' = pool_socket_fd pool" "live w2 = live w" "open_fds w2 = open_fds w"
      using same by (simp_all add: same_pool_def)
    have run: "(if type = SOFT then thread_pool_soft_destroy pool' else thread_pool_hard_destroy pool') E w2
        = Ret ((), destroyed ?type pool' w2)"
      using destroy_result [OF s(1), of ?type E] s blocks type
      by (cases s) (simp_all add: thread_pool_soft_destroy_def thread_pool_hard_destroy_def)
    let ?w3 = "destroyed ?type pool' w2"
    have "wp (config_destroy c) (\<lambda>_. Q 0) E ?w3"
    proof (rule wp_config_destroy [OF conf(1)])
      show "config_blocks c \<subseteq> live ?w3" using conf(2) s by (auto simp: destroyed_def)
      show "Q 0 (?w3\<lparr>live := live ?w3 - config_blocks c\<rparr>)"
        by (rule Q [of _ pool']) (use s in \<open>auto simp: destroyed_def pool_ok_def\<close>)
    qed
    then show ?thesis
      by (simp only: wp_Ret [where m = "if type = SOFT then thread_pool_soft_destroy pool' else thread_pool_hard_destroy pool'"
          and w = w2, OF run])
  qed
  show ?thesis
    unfolding main_wait_def wp_bind
  proof (rule wp_deliver)
    fix l
    let ?t = "case rev early of [] \<Rightarrow> HARD | s # _ \<Rightarrow> if s = SIGINT then SOFT else HARD"
    show "wp (watcher_run loads pool) (\<lambda>pool. wp (case s # late of
       [] \<Rightarrow> unfinished
     | s # _ \<Rightarrow> bind (deliver [s] ?t) (\<lambda>type.
         bind (if type = SOFT then thread_pool_soft_destroy pool else thread_pool_hard_destroy pool) (\<lambda>_.
         bind (config_destroy c) (\<lambda>_. return 0)))) Q E) E (w\<lparr>log_out := l\<rparr>)"
    proof (rule wp_watcher_run [OF _ small])
      show "pool_ok pool (w\<lparr>log_out := l\<rparr>)" using ok by simp
      fix pool' w'
      assume same: "same_pool pool (w\<lparr>log_out := l\<rparr>) pool' w'"
      have "wp (deliver [s] ?t) (\<lambda>type. wp (if type = SOFT then thread_pool_soft_destroy pool' else thread_pool_hard_destroy pool')
          (\<lambda>_. wp (config_destroy c) (\<lambda>_. Q 0) E) E) E w'"
        by (rule wp_deliver, rule stop [where l = "log_out w'"]) (use same in \<open>simp_all add: same_pool_def\<close>)
      then show "wp (case s # late of
         [] \<Rightarrow> unfinished
       | s # _ \<Rightarrow> bind (deliver [s] ?t) (\<lambda>type.
           bind (if type = SOFT then thread_pool_soft_destroy pool' else thread_pool_hard_destroy pool') (\<lambda>_.
           bind (config_destroy c) (\<lambda>_. return 0)))) Q E w'"
        by (simp add: wp_bind_fun wp_return_fun del: wp_if deliver.simps)
    qed
  qed
qed

text \<open>The configuration and the number of threads the properties need.\<close>

definition startable :: "env \<Rightarrow> bool" where
  "startable E \<longleftrightarrow> complete_file (cfg_parse E CONFIG_FILE) \<and> alloc_ok E \<and> calls_ok E \<and>
     (\<exists>m. cfg_int (cfg_parse E CONFIG_FILE) ''max_connections'' = Some m \<and> 1 \<le> to_int m \<and> to_int m \<le> 1431655764) \<and>
     (\<exists>p. cfg_int (cfg_parse E CONFIG_FILE) ''listen_port'' = Some p \<and> 0 \<le> to_int p)"

text \<open>The state in which the pool has been started.\<close>

lemma main_starts:
  assumes "startable E" and "heap_ok w" and "0 \<le> next_fd w"
  obtains c pool w0 w1 where "main loads early late E w = main_pool loads early late c pool E w1"
    and "pool_ok pool w1" and "max_threads pool \<le> 1431655764" and "pool_socket_fd pool = next_fd w"
    and "pool_block pool \<noteq> threads_block pool" and "config_held c w w0"
    and "live w1 = live w0 \<union> {pool_block pool, threads_block pool}" and "live w0 \<inter> {pool_block pool, threads_block pool} = {}"
    and "open_fds w1 = insert (next_fd w) (open_fds w)"
    and "trace w1 = trace w @ map Thread_Created (slots pool) @ [Watcher_Created]"
proof -
  obtain m p where cfg: "complete_file (cfg_parse E CONFIG_FILE)" and ok: "alloc_ok E" "calls_ok E"
    and m: "cfg_int (cfg_parse E CONFIG_FILE) ''max_connections'' = Some m" "1 \<le> to_int m" "to_int m \<le> 1431655764"
    and p: "cfg_int (cfg_parse E CONFIG_FILE) ''listen_port'' = Some p" "0 \<le> to_int p"
    using assms(1) unfolding startable_def by blast
  have alloc: "malloc_ok E k" for k using ok(1) by (simp add: alloc_ok_def)
  obtain c w0 where load: "config_load CONFIG_FILE E w = Ret (Some c, w0)" and held: "config_held c w w0"
    and vals: "Some (max_connections c) = Some (to_int m)" "Some (listen_port c) = Some (to_int p)"
  proof (rule config_load_result [OF cfg alloc assms(2)])
    fix c w0
    assume "config_load CONFIG_FILE E w = Ret (Some c, w0)" "config_held c w w0"
      "Some (max_connections c) = map_option to_int (cfg_int (cfg_parse E CONFIG_FILE) ''max_connections'')"
      "Some (listen_port c) = map_option to_int (cfg_int (cfg_parse E CONFIG_FILE) ''listen_port'')"
    then show thesis using that m(1) p(1) by simp
  qed
  let ?w1 = "w0\<lparr>log_limit := log_priority c\<rparr>"
  let ?w2 = "?w1\<lparr>n_calls := n_calls ?w1 + 4, next_fd := next_fd ?w1 + 1, open_fds := insert (next_fd ?w1) (open_fds ?w1)\<rparr>"
  let ?w3 = "?w2\<lparr>n_calls := Suc (n_calls ?w2)\<rparr>"
  have r: "rest w0 = rest w" using held by (simp add: config_held_def)
  note same = rest_eqD [OF r]
  have sock: "socket_open (listen_port c) MAX_QUEUE_LEN E ?w1 = Ret (next_fd w, ?w2)"
    using socket_open_result [OF ok(2), of "listen_port c" MAX_QUEUE_LEN ?w1] vals p(2) same by (simp add: MAX_QUEUE_LEN_def)
  obtain pool w5 where pool: "thread_pool_ini (next_fd w) c E ?w3 = Ret (Some pool, w5)" "pool_ok pool w5"
    "max_threads pool = max INITIAL_THREADS (max_connections c)"
    "trace w5 = trace ?w3 @ map Thread_Created (slots pool) @ [Watcher_Created]" "open_fds w5 = open_fds ?w3"
    "live w5 = insert (n_malloc ?w3) (insert (Suc (n_malloc ?w3)) (live ?w3))" "pool_block pool = n_malloc ?w3"
    "threads_block pool = Suc (n_malloc ?w3)" "pool_socket_fd pool = next_fd w"
    by (rule pool_ini_result [OF _ alloc alloc ok(2), where a = c and w = ?w3 and fd = "next_fd w"]) (use vals m in auto)
  have heap0: "heap_ok w0" using held by (simp add: config_held_def)
  have run: "main loads early late E w = main_pool loads early late c pool E w5"
    using load sock pool(1) assms(3) ok(2)
    by (simp add: main_def main_socket_def bind_def set_logging_limit_def modify_def sys_call_def calls_ok_def)
  show thesis
  proof (rule that [OF run pool(2)])
    show "max_threads pool \<le> 1431655764" using pool(3) vals m by (simp add: INITIAL_THREADS_def)
    show "live w0 \<inter> {pool_block pool, threads_block pool} = {}"
      using heap0 by (auto simp: pool(7,8) heap_ok_def)
    show "live w5 = live w0 \<union> {pool_block pool, threads_block pool}" by (auto simp: pool(6-8))
    show "open_fds w5 = insert (next_fd w) (open_fds w)" using same by (simp add: pool(5))
    show "trace w5 = trace w @ map Thread_Created (slots pool) @ [Watcher_Created]" using same by (simp add: pool(4))
  qed (simp_all add: pool held)
qed

lemma main_pool_waits:
  assumes "calls_ok E"
  shows "main_pool loads early late c pool E w
    = main_wait loads early late c pool E (w\<lparr>n_calls := Suc (Suc (Suc (n_calls w)))\<rparr>)"
  using assms by (simp add: main_pool_def bind_def sys_call_def calls_ok_def)

lemma pool_ok_calls: "pool_ok pool w \<Longrightarrow> n_calls w \<le> n \<Longrightarrow> pool_ok pool (w\<lparr>n_calls := n\<rparr>)"
  by (auto simp: pool_ok_def)

section \<open>Properties\<close>


text \<open>A machine whose configuration file sets every option.\<close>

lemma demo_startable: "startable demo_env"
  by (simp add: startable_def complete_file_def demo_alloc_ok demo_calls_ok to_int_def)


text \<open>Signals that arrive after the handlers are installed but before \<open>sigsuspend\<close> are handled and lost: the
  process goes on waiting, however many there were.\<close>

theorem early_signals_are_lost:
  assumes "startable E" and "heap_ok w" and "0 \<le> next_fd w"
  shows "main loads early [] E w = Unfinished"
proof -
  obtain c pool w0 w1 where run: "main loads early [] E w = main_pool loads early [] c pool E w1"
    and pool: "pool_ok pool w1" "max_threads pool \<le> 1431655764"
    by (rule main_starts [OF assms])
  have calls: "calls_ok E" using assms(1) by (simp add: startable_def)
  let ?w = "w1\<lparr>n_calls := Suc (Suc (Suc (n_calls w1)))\<rparr>"
  have ok: "pool_ok pool ?w" by (rule pool_ok_calls [OF pool(1)]) simp
  have "wp (deliver early HARD) (\<lambda>type w2. pool_ok pool w2) E ?w" by (rule wp_deliver) (simp add: ok)
  then obtain type w2 where d: "deliver early HARD E ?w = Ret (type, w2)" "pool_ok pool w2" by (elim wpE)
  have "wp (watcher_run loads pool) (\<lambda>_ _. True) E w2" by (rule wp_watcher_run [OF d(2) pool(2)]) simp
  then obtain pool' w3 where "watcher_run loads pool E w2 = Ret (pool', w3)" by (elim wpE)
  then have "main_wait loads early [] c pool E ?w = Unfinished"
    using d(1) by (simp add: main_wait_def bind_def unfinished_def)
  then show ?thesis using run main_pool_waits [OF calls, of loads early "[]" c pool w1] by simp
qed

theorem early_signals_are_lost_witness:
  "main [] [SIGINT, SIGTERM] [] demo_env demo_world = Unfinished"
  by (rule early_signals_are_lost [OF demo_startable demo_heap_ok]) simp


definition demo_held :: config where
  "demo_held = demo_config\<lparr>config_block := 2, signature_block := Some 3, base_path_block := Some 4, default_path_block := Some 5\<rparr>"


end
