(* ===== verification/Daemon.thy ===== *)
theory Daemon
  imports Prelude
begin

text \<open>
  Turning the process into a daemon, srclib/daemon/daemon.c. The function forks twice, so that three processes
  run it: each sees its own answers of \<open>fork\<close>, which are arguments here, and either exits or goes on. (The
  server does not call the function; it is started by systemd.)
\<close>

section \<open>The code\<close>

record process =
  descriptors :: "int set"
  group_leader :: bool
  session_leader :: bool
  ignores_hangup :: bool
  working_directory :: string
  log_name :: "string option"

definition EXIT_SUCCESS :: int where "EXIT_SUCCESS = 0"
definition EXIT_FAILURE :: int where "EXIT_FAILURE = 1"

text \<open>A child of \<open>fork\<close> leads neither a process group nor a session. \<open>setsid\<close> is refused to the leader of a group.\<close>

definition forked :: "process \<Rightarrow> process" where
  "forked p = p\<lparr>group_leader := False, session_leader := False\<rparr>"

definition setsid :: "process \<Rightarrow> process option" where
  "setsid p = (if group_leader p then None else Some (p\<lparr>group_leader := True, session_leader := True\<rparr>))"

text \<open>The loop that closes the descriptors \<open>i\<close>, \<open>i + 1\<close>, \dots, \<open>n\<close> of them.\<close>

fun close_loop :: "nat \<Rightarrow> int \<Rightarrow> process \<Rightarrow> process" where
  "close_loop 0 i p = p"
| "close_loop (Suc n) i p = close_loop n (i + 1) (p\<lparr>descriptors := descriptors p - {i}\<rparr>)"

text \<open>One \<open>fork\<close> with its checks: the code to exit with, or the child.\<close>

definition fork_step :: "int \<Rightarrow> process \<Rightarrow> int + process" where
  "fork_step pid p =
     (if pid = -1 then Inl EXIT_FAILURE else if pid > 0 then Inl EXIT_SUCCESS else Inr (forked p))"

definition daemon_init :: "string \<Rightarrow> int \<Rightarrow> int \<Rightarrow> int \<Rightarrow> process \<Rightarrow> int + process" where
  "daemon_init daemon_name pid1 pid2 open_max p = (case fork_step pid1 p of
     Inl code \<Rightarrow> Inl code
   | Inr p \<Rightarrow> (case setsid p of
       None \<Rightarrow> Inl EXIT_FAILURE
     | Some p \<Rightarrow> (case fork_step pid2 (p\<lparr>ignores_hangup := True\<rparr>) of
         Inl code \<Rightarrow> Inl code
       | Inr p \<Rightarrow>
           let p = p\<lparr>working_directory := ''/''\<rparr>;
               p = close_loop (nat open_max) 0 p
           in Inr (p\<lparr>log_name := Some daemon_name\<rparr>))))"

section \<open>Properties\<close>

lemma close_loop_eq: "close_loop n i p = p\<lparr>descriptors := descriptors p - {i ..< i + int n}\<rparr>"
proof (induction n arbitrary: i p)
  case (Suc n)
  have "{i ..< i + int (Suc n)} = insert i {i + 1 ..< i + 1 + int n}" by auto
  then have "descriptors p - {i} - {i + 1 ..< i + 1 + int n} = descriptors p - {i ..< i + int (Suc n)}" by blast
  then show ?case unfolding close_loop.simps Suc.IH by simp
qed simp



end
