(* ===== verification/Transition_System.thy ===== *)
theory Transition_System
  imports Main
begin

text \<open>
  Transition systems and simulations between them, as interfaces: what is reachable, how an invariant is
  proved, and that every state a system reaches is mapped to a state the abstract system reaches.
\<close>

locale transition_system =
  fixes init :: "'s \<Rightarrow> bool" and step :: "'s \<Rightarrow> 's \<Rightarrow> bool"
begin

inductive reachable :: "'s \<Rightarrow> bool" where
  start: "init s \<Longrightarrow> reachable s"
| further: "reachable s \<Longrightarrow> step s s' \<Longrightarrow> reachable s'"

lemma invariant:
  assumes "reachable s" and "\<And>s. init s \<Longrightarrow> I s" and "\<And>s s'. I s \<Longrightarrow> step s s' \<Longrightarrow> I s'"
  shows "I s"
  using assms(1) by induction (auto intro: assms(2,3))

lemma reachable_steps: "step\<^sup>*\<^sup>* s s' \<Longrightarrow> reachable s \<Longrightarrow> reachable s'"
  by (induction rule: rtranclp_induct) (auto intro: further)

end

locale simulation = concrete: transition_system init step + abstract: transition_system ainit astep
  for init :: "'s \<Rightarrow> bool" and step :: "'s \<Rightarrow> 's \<Rightarrow> bool"
    and ainit :: "'a \<Rightarrow> bool" and astep :: "'a \<Rightarrow> 'a \<Rightarrow> bool" +
  fixes abs :: "'s \<Rightarrow> 'a" and inv :: "'s \<Rightarrow> bool"
  assumes inv_init: "init s \<Longrightarrow> inv s"
    and inv_step: "inv s \<Longrightarrow> step s s' \<Longrightarrow> inv s'"
    and sim_init: "init s \<Longrightarrow> ainit (abs s)"
    and sim_step: "inv s \<Longrightarrow> step s s' \<Longrightarrow> abs s' = abs s \<or> astep (abs s) (abs s')"
begin

lemma reachable_inv: "concrete.reachable s \<Longrightarrow> inv s"
  by (rule concrete.invariant) (auto intro: inv_init inv_step)

lemma reachable_abs:
  assumes "concrete.reachable s"
  shows "abstract.reachable (abs s)"
  using assms
proof (induction rule: concrete.reachable.induct)
  case (start s)
  then show ?case by (intro abstract.start sim_init)
next
  case (further s s')
  then show ?case
    using sim_step [OF reachable_inv] by (metis abstract.further)
qed

lemma transfer:
  assumes "concrete.reachable s" and "\<And>x. abstract.reachable x \<Longrightarrow> P x"
  shows "P (abs s)"
  using assms reachable_abs by blast

end

section \<open>Counting steps\<close>

text \<open>A number that never grows, and shrinks with each step of a kind, bounds the steps of that kind.\<close>

lemma card_drops:
  fixes g :: "nat \<Rightarrow> nat"
  assumes "\<And>n. n < N \<Longrightarrow> g (Suc n) \<le> g n" and "\<And>n. n < N \<Longrightarrow> P n \<Longrightarrow> g (Suc n) < g n"
  shows "card {n. n < N \<and> P n} \<le> g 0"
proof -
  have "m \<le> N \<Longrightarrow> card {n. n < m \<and> P n} + g m \<le> g 0" for m
  proof (induction m)
    case 0
    then show ?case by simp
  next
    case (Suc m)
    have split: "{n. n < Suc m \<and> P n} = {n. n < m \<and> P n} \<union> (if P m then {m} else {})"
      by (auto simp: less_Suc_eq)
    have "card {n. n < Suc m \<and> P n} = card {n. n < m \<and> P n} + (if P m then 1 else 0)"
      unfolding split by (subst card_Un_disjoint) auto
    then show ?case using Suc assms [of m] by (auto split: if_splits)
  qed
  from this [of N] show ?thesis by simp
qed

end
