(* ===== verification/Pool_Concurrency.thy ===== *)
theory Pool_Concurrency
  imports Pool_Properties Transition_System
begin

text \<open>
  The threads of the pool running together: the workers, with the steps of \<open>_worker_function\<close> between which
  another thread can run, the watcher, with those of \<open>_watcher_function\<close>, and the thread that destroys the pool, with
  those of \<open>_thread_pool_destroy\<close>. The counter of active threads is read and written in separate steps, as the
  processor does it; only the mutex keeps these apart. A soft kill is a signal that takes effect where the worker does
  not block it; a cancellation takes effect in the calls that are cancellation points. The counter is shown to
  be right in every interleaving.
\<close>

section \<open>The code\<close>

text \<open>Where a worker stands in \<open>_worker_function\<close>: in \<open>accept\<close>; after it, with the signal not blocked yet; at
  the lock, the read, the write and the unlock of \<open>n_active_threads++\<close>; in the loop over
  \<open>connection_handler\<close>; before \<open>socket_close\<close>; at the steps of \<open>n_active_threads--\<close>; before the signal is
  unblocked; ended before it was counted or after; and cancelled while it was counted.\<close>

datatype worker_pc =
    Accepting | Accepted
  | Locking_Inc | Reading_Inc | Writing_Inc int | Unlocking_Inc
  | Serving | Closing
  | Locking_Dec | Reading_Dec | Writing_Dec int | Unlocking_Dec
  | Unmasking | Ended | Aborted

record worker =
  worker_at :: worker_pc
  client :: int

datatype watcher_pc = Sleeping | Locking | Reading | Unlocking int | Deciding int | Watcher_Ended

datatype owner = Worker nat | Watcher

text \<open>Where the owner of the pool stands: the destruction has not begun; it has \<open>watcher_mutex\<close>, for good, and has
  cancelled the watcher; it has signalled or cancelled the threads of the array and waits for the thread at an
  index; it has freed the pool.\<close>

datatype owner_pc = Using | Stopping kill_type | Joining nat | Freed

text \<open>The shared state: the workers ever created, the watcher, the owner of \<open>shared_mutex\<close>,
  \<open>n_active_threads\<close>, the workers that were sent the signal and those that were cancelled, whether the
  watcher was cancelled, the open connections, the indices of the workers in the array \<open>threads\<close>,
  \<open>max_threads\<close>, and the owner of the pool.\<close>

record pool_state =
  workers :: "worker list"
  watcher_at :: watcher_pc
  mutex :: "owner option"
  n_active :: int
  signalled :: "nat set"
  cancelled :: "nat set"
  watcher_cancelled :: bool
  open_conns :: "int set"
  known :: "nat list"
  limit :: int
  owner_at :: owner_pc

definition moved :: "pool_state \<Rightarrow> nat \<Rightarrow> worker_pc \<Rightarrow> pool_state" where
  "moved s i p = s\<lparr>workers := (workers s)[i := (workers s ! i)\<lparr>worker_at := p\<rparr>]\<rparr>"

definition stands :: "pool_state \<Rightarrow> nat \<Rightarrow> worker_pc \<Rightarrow> bool" where
  "stands s i p \<longleftrightarrow> i < length (workers s) \<and> worker_at (workers s ! i) = p"

text \<open>A worker that ends runs \<open>_cleanup_handler\<close>.\<close>

definition cleaned_up :: "pool_state \<Rightarrow> nat \<Rightarrow> worker_pc \<Rightarrow> pool_state" where
  "cleaned_up s i p = (moved s i p)\<lparr>open_conns :=
     (if client (workers s ! i) \<noteq> -1 then open_conns s - {client (workers s ! i)} else open_conns s)\<rparr>"

definition new_worker :: worker where
  "new_worker = \<lparr>worker_at = Accepting, client = -1\<rparr>"

text \<open>The pool with another size: new workers are created at the end, or the last ones of the array are sent the
  signal and forgotten.\<close>

definition resized :: "nat \<Rightarrow> pool_state \<Rightarrow> pool_state" where
  "resized n' s =
     (let n = length (known s) in
      if n \<le> n' then s\<lparr>workers := workers s @ replicate (n' - n) new_worker,
                     known := known s @ [length (workers s) ..< length (workers s) + (n' - n)]\<rparr>
      else s\<lparr>signalled := signalled s \<union> set (drop n' (known s)), known := take n' (known s)\<rparr>)"

definition pool_init :: "pool_state \<Rightarrow> bool" where
  "pool_init s \<longleftrightarrow> INITIAL_THREADS \<le> limit s \<and>
     s = \<lparr>workers = replicate (nat INITIAL_THREADS) new_worker, watcher_at = Sleeping, mutex = None, n_active = 0,
          signalled = {}, cancelled = {}, watcher_cancelled = False, open_conns = {}, known = [0 ..< nat INITIAL_THREADS],
          limit = limit s, owner_at = Using\<rparr>"

definition ended :: "pool_state \<Rightarrow> nat \<Rightarrow> bool" where
  "ended s i \<longleftrightarrow> stands s i Ended \<or> stands s i Aborted"

text \<open>The steps of a worker. A signal that is pending when it is unblocked is delivered before \<open>pthread_sigmask\<close> returns.
  The cancellation points are \<open>accept\<close>, the reads and writes of \<open>connection_handler\<close>, and \<open>close\<close>, which does not
  close when the thread was cancelled before the call.\<close>

inductive worker_step :: "pool_state \<Rightarrow> pool_state \<Rightarrow> bool" where
  accept: "stands s i Accepting \<Longrightarrow> 0 \<le> fd \<Longrightarrow> fd \<notin> open_conns s \<Longrightarrow>
    worker_step s (s\<lparr>workers := (workers s)[i := \<lparr>worker_at = Accepted, client = fd\<rparr>],
                     open_conns := insert fd (open_conns s)\<rparr>)"
| accept_fails: "stands s i Accepting \<Longrightarrow>
    worker_step s (s\<lparr>workers := (workers s)[i := \<lparr>worker_at = Accepting, client = -1\<rparr>]\<rparr>)"
| block_signal: "stands s i Accepted \<Longrightarrow> worker_step s (moved s i Locking_Inc)"
| lock_inc: "stands s i Locking_Inc \<Longrightarrow> mutex s = None \<Longrightarrow>
    worker_step s ((moved s i Reading_Inc)\<lparr>mutex := Some (Worker i)\<rparr>)"
| read_inc: "stands s i Reading_Inc \<Longrightarrow> worker_step s (moved s i (Writing_Inc (n_active s)))"
| write_inc: "stands s i (Writing_Inc v) \<Longrightarrow> worker_step s ((moved s i Unlocking_Inc)\<lparr>n_active := v + 1\<rparr>)"
| unlock_inc: "stands s i Unlocking_Inc \<Longrightarrow> worker_step s ((moved s i Serving)\<lparr>mutex := None\<rparr>)"
| serve: "stands s i Serving \<Longrightarrow> worker_step s (moved s i Closing)"
| close: "stands s i Closing \<Longrightarrow> i \<notin> cancelled s \<Longrightarrow>
    worker_step s ((moved s i Locking_Dec)\<lparr>open_conns := open_conns s - {client (workers s ! i)}\<rparr>)"
| lock_dec: "stands s i Locking_Dec \<Longrightarrow> mutex s = None \<Longrightarrow>
    worker_step s ((moved s i Reading_Dec)\<lparr>mutex := Some (Worker i)\<rparr>)"
| read_dec: "stands s i Reading_Dec \<Longrightarrow> worker_step s (moved s i (Writing_Dec (n_active s)))"
| write_dec: "stands s i (Writing_Dec v) \<Longrightarrow> worker_step s ((moved s i Unlocking_Dec)\<lparr>n_active := v - 1\<rparr>)"
| unlock_dec: "stands s i Unlocking_Dec \<Longrightarrow> worker_step s ((moved s i Unmasking)\<lparr>mutex := None\<rparr>)"
| unblock_signal: "stands s i Unmasking \<Longrightarrow> i \<notin> signalled s \<Longrightarrow> worker_step s (moved s i Accepting)"
| soft_killed: "stands s i p \<Longrightarrow> p = Accepting \<or> p = Accepted \<or> p = Unmasking \<Longrightarrow> i \<in> signalled s \<Longrightarrow>
    worker_step s (cleaned_up s i Ended)"
| cancelled_idle: "stands s i Accepting \<Longrightarrow> i \<in> cancelled s \<Longrightarrow> worker_step s (cleaned_up s i Ended)"
| cancelled_busy: "stands s i p \<Longrightarrow> p = Serving \<or> p = Closing \<Longrightarrow> i \<in> cancelled s \<Longrightarrow>
    worker_step s (cleaned_up s i Aborted)"

text \<open>The steps of the watcher, whose cancellation point is \<open>usleep\<close>. It resizes the pool in one step, under
  \<open>watcher_mutex\<close>; the size that is reached is the one aimed at, or less growth when a thread cannot be created.\<close>

inductive watcher_step :: "pool_state \<Rightarrow> pool_state \<Rightarrow> bool" where
  watcher_wakes: "watcher_at s = Sleeping \<Longrightarrow> watcher_step s (s\<lparr>watcher_at := Locking\<rparr>)"
| watcher_locks: "watcher_at s = Locking \<Longrightarrow> mutex s = None \<Longrightarrow>
    watcher_step s (s\<lparr>watcher_at := Reading, mutex := Some Watcher\<rparr>)"
| watcher_reads: "watcher_at s = Reading \<Longrightarrow> watcher_step s (s\<lparr>watcher_at := Unlocking (n_active s)\<rparr>)"
| watcher_unlocks: "watcher_at s = Unlocking e \<Longrightarrow> watcher_step s (s\<lparr>watcher_at := Deciding e, mutex := None\<rparr>)"
| watcher_resizes: "watcher_at s = Deciding e \<Longrightarrow> owner_at s = Using \<Longrightarrow>
    goal = nat (next_size e (limit s) (int (length (known s)))) \<Longrightarrow>
    n = goal \<or> length (known s) \<le> n \<and> n < goal \<Longrightarrow>
    watcher_step s ((resized n s)\<lparr>watcher_at := Sleeping\<rparr>)"
| watcher_ends: "watcher_at s = Sleeping \<Longrightarrow> watcher_cancelled s \<Longrightarrow> watcher_step s (s\<lparr>watcher_at := Watcher_Ended\<rparr>)"

text \<open>The steps of the destruction, which keeps \<open>watcher_mutex\<close> from the first on, so that the signals or cancellations are
  one step.\<close>

inductive destroy_step :: "pool_state \<Rightarrow> pool_state \<Rightarrow> bool" where
  destroy_begins: "owner_at s = Using \<Longrightarrow> destroy_step s (s\<lparr>watcher_cancelled := True, owner_at := Stopping type\<rparr>)"
| signal_all: "owner_at s = Stopping SOFT \<Longrightarrow>
    destroy_step s (s\<lparr>signalled := signalled s \<union> set (known s), owner_at := Joining 0\<rparr>)"
| cancel_all: "owner_at s = Stopping HARD \<Longrightarrow>
    destroy_step s (s\<lparr>cancelled := cancelled s \<union> set (known s), owner_at := Joining 0\<rparr>)"
| join: "owner_at s = Joining j \<Longrightarrow> j < length (known s) \<Longrightarrow> ended s (known s ! j) \<Longrightarrow>
    destroy_step s (s\<lparr>owner_at := Joining (Suc j)\<rparr>)"
| release: "owner_at s = Joining (length (known s)) \<Longrightarrow> destroy_step s (s\<lparr>owner_at := Freed\<rparr>)"

text \<open>The whole pool. Where it has been freed the steps end: a thread that still runs would use memory that is not the
  program's any more.\<close>

definition pool_step :: "pool_state \<Rightarrow> pool_state \<Rightarrow> bool" where
  "pool_step s s' \<longleftrightarrow> owner_at s \<noteq> Freed \<and> (worker_step s s' \<or> watcher_step s s' \<or> destroy_step s s')"

lemma worker_moves: "owner_at s \<noteq> Freed \<Longrightarrow> worker_step s s' \<Longrightarrow> pool_step s s'"
  and watcher_moves: "owner_at s \<noteq> Freed \<Longrightarrow> watcher_step s s' \<Longrightarrow> pool_step s s'"
  and owner_moves: "owner_at s \<noteq> Freed \<Longrightarrow> destroy_step s s' \<Longrightarrow> pool_step s s'"
  by (simp_all add: pool_step_def)

lemma pool_step_cases:
  assumes "pool_step s s'"
  obtains "worker_step s s'" | "watcher_step s s'" | "destroy_step s s'"
  using assms by (auto simp: pool_step_def)

section \<open>What the counter stands for\<close>

text \<open>The specification: a set of busy workers and its size, changed together.\<close>

record spec_state =
  busy :: "nat set"
  count :: int

definition spec_init :: "spec_state \<Rightarrow> bool" where
  "spec_init x \<longleftrightarrow> x = \<lparr>busy = {}, count = 0\<rparr>"

inductive spec_step :: "spec_state \<Rightarrow> spec_state \<Rightarrow> bool" where
  begins: "i \<notin> busy x \<Longrightarrow> spec_step x \<lparr>busy = insert i (busy x), count = count x + 1\<rparr>"
| ends: "i \<in> busy x \<Longrightarrow> spec_step x \<lparr>busy = busy x - {i}, count = count x - 1\<rparr>"

interpretation spec: transition_system spec_init spec_step .

lemma spec_counts: "spec.reachable x \<Longrightarrow> finite (busy x) \<and> count x = int (card (busy x))"
proof (induction rule: spec.reachable.induct)
  case (start x)
  then show ?case by (simp add: spec_init_def)
next
  case (further x x')
  from further(2) show ?case
  proof cases
    case (begins i)
    with further(3) show ?thesis by simp
  next
    case (ends i)
    then have "card (busy x) = Suc (card (busy x - {i}))" using further(3) by (intro card.remove) simp_all
    then have "count x - 1 = int (card (busy x - {i}))" using further(3) by linarith
    then show ?thesis using further(3) unfolding ends(1) by (simp only: spec_state.simps finite_Diff)
  qed
qed

text \<open>A worker is busy from the write that counts it to the write that no longer does; one that is cancelled in
  between stays counted.\<close>

fun counted :: "worker_pc \<Rightarrow> bool" where
  "counted Unlocking_Inc = True"
| "counted Serving = True"
| "counted Closing = True"
| "counted Locking_Dec = True"
| "counted Reading_Dec = True"
| "counted (Writing_Dec v) = True"
| "counted Aborted = True"
| "counted p = False"

definition abs_pool :: "pool_state \<Rightarrow> spec_state" where
  "abs_pool s = \<lparr>busy = {i. i < length (workers s) \<and> counted (worker_at (workers s ! i))}, count = n_active s\<rparr>"

text \<open>Between lock and unlock.\<close>

fun holds :: "worker_pc \<Rightarrow> bool" where
  "holds Reading_Inc = True"
| "holds (Writing_Inc v) = True"
| "holds Unlocking_Inc = True"
| "holds Reading_Dec = True"
| "holds (Writing_Dec v) = True"
| "holds Unlocking_Dec = True"
| "holds p = False"

fun watcher_holds :: "watcher_pc \<Rightarrow> bool" where
  "watcher_holds Reading = True"
| "watcher_holds (Unlocking e) = True"
| "watcher_holds p = False"

definition mutex_ok :: "pool_state \<Rightarrow> bool" where
  "mutex_ok s \<longleftrightarrow>
     (\<forall>i < length (workers s). holds (worker_at (workers s ! i)) \<longleftrightarrow> mutex s = Some (Worker i)) \<and>
     (\<forall>i. mutex s = Some (Worker i) \<longrightarrow> i < length (workers s)) \<and>
     (watcher_holds (watcher_at s) \<longleftrightarrow> mutex s = Some Watcher) \<and>
     (\<forall>i v. stands s i (Writing_Inc v) \<or> stands s i (Writing_Dec v) \<longrightarrow> v = n_active s)"

lemma mutex_ok_init: "pool_init s \<Longrightarrow> mutex_ok s"
  unfolding pool_init_def by (erule conjE, erule ssubst) (auto simp: mutex_ok_def stands_def new_worker_def)

lemma resized_sel [simp]:
  "watcher_at (resized n s) = watcher_at s" "mutex (resized n s) = mutex s" "n_active (resized n s) = n_active s"
  "open_conns (resized n s) = open_conns s" "limit (resized n s) = limit s" "owner_at (resized n s) = owner_at s"
  by (simp_all add: resized_def Let_def)

lemma resized_workers: "\<exists>k. workers (resized n s) = workers s @ replicate k new_worker"
  by (auto simp: resized_def Let_def intro: exI [of _ 0])

text \<open>Nobody but the owner of the mutex is between lock and unlock, so that a write concerns nobody else.\<close>

lemma holds_unique:
  assumes "mutex_ok s" and "stands s i p" and "holds p" and "stands s j q" and "holds q"
  shows "j = i"
proof -
  have "mutex s = Some (Worker i)" "mutex s = Some (Worker j)" using assms by (auto simp: mutex_ok_def stands_def)
  then show ?thesis by simp
qed

lemma mutex_ok_write:
  assumes ok: "mutex_ok s" and i: "stands s i p" "holds p" and q: "holds q" "\<And>v. q \<noteq> Writing_Inc v" "\<And>v. q \<noteq> Writing_Dec v"
  shows "mutex_ok ((moved s i q)\<lparr>n_active := n\<rparr>)"
proof -
  have none: "\<not> stands ((moved s i q)\<lparr>n_active := n\<rparr>) j (Writing_Inc v)" "\<not> stands ((moved s i q)\<lparr>n_active := n\<rparr>) j (Writing_Dec v)" for j v
    using holds_unique [OF ok i, of j "Writing_Inc v"] holds_unique [OF ok i, of j "Writing_Dec v"] i(1) q(2,3)
    by (auto simp: moved_def stands_def nth_list_update)
  have "\<forall>j < length (workers s). holds (worker_at ((workers s)[i := (workers s ! i)\<lparr>worker_at := q\<rparr>] ! j)) \<longleftrightarrow> mutex s = Some (Worker j)"
    using ok i q(1) by (auto simp: mutex_ok_def stands_def nth_list_update)
  then show ?thesis
    using ok none by (simp add: mutex_ok_def) (simp add: moved_def)
qed

lemma mutex_ok_worker:
  assumes "mutex_ok s" and "worker_step s s'"
  shows "mutex_ok s'"
  using assms(2,1)
proof cases
  case (write_inc i v)
  show ?thesis unfolding write_inc(1) by (rule mutex_ok_write [OF assms(1) write_inc(2)]) simp_all
next
  case (write_dec i v)
  show ?thesis unfolding write_dec(1) by (rule mutex_ok_write [OF assms(1) write_dec(2)]) simp_all
qed (auto simp: mutex_ok_def cleaned_up_def moved_def stands_def nth_list_update)

lemma mutex_ok_watcher:
  assumes "mutex_ok s" and "watcher_step s s'"
  shows "mutex_ok s'"
  using assms(2,1)
proof cases
  case (watcher_resizes e goal n)
  obtain k where k: "workers (resized n s) = workers s @ replicate k new_worker" using resized_workers by blast
  have "stands ((resized n s)\<lparr>watcher_at := Sleeping\<rparr>) i p \<Longrightarrow> p \<noteq> Accepting \<Longrightarrow> stands s i p" for i p
    using k by (auto simp: stands_def nth_append new_worker_def split: if_splits)
  then have old: "stands s' i p \<Longrightarrow> p \<noteq> Accepting \<Longrightarrow> stands s i p" for i p using watcher_resizes(1) by simp
  have "\<forall>i v. stands s' i (Writing_Inc v) \<or> stands s' i (Writing_Dec v) \<longrightarrow> v = n_active s'"
  proof (intro allI impI)
    fix i v
    assume "stands s' i (Writing_Inc v) \<or> stands s' i (Writing_Dec v)"
    then have "stands s i (Writing_Inc v) \<or> stands s i (Writing_Dec v)"
      using old [of i "Writing_Inc v"] old [of i "Writing_Dec v"] by blast
    then have "v = n_active s" using assms(1) unfolding mutex_ok_def by blast
    then show "v = n_active s'" using watcher_resizes(1) by simp
  qed
  moreover have "\<forall>i < length (workers s'). holds (worker_at (workers s' ! i)) \<longleftrightarrow> mutex s' = Some (Worker i)"
    using assms(1) watcher_resizes by (auto simp: mutex_ok_def k nth_append new_worker_def)
  moreover have "(\<forall>i. mutex s' = Some (Worker i) \<longrightarrow> i < length (workers s')) \<and>
      (watcher_holds (watcher_at s') \<longleftrightarrow> mutex s' = Some Watcher)"
    using assms(1) watcher_resizes by (auto simp: mutex_ok_def k)
  ultimately show ?thesis unfolding mutex_ok_def by blast
qed (auto simp: mutex_ok_def stands_def)

lemma mutex_ok_destroy: "mutex_ok s \<Longrightarrow> destroy_step s s' \<Longrightarrow> mutex_ok s'"
  by (erule destroy_step.cases) (auto simp: mutex_ok_def stands_def)

lemma mutex_ok_step: "mutex_ok s \<Longrightarrow> pool_step s s' \<Longrightarrow> mutex_ok s'"
  by (erule pool_step_cases) (rule mutex_ok_worker mutex_ok_watcher mutex_ok_destroy; assumption)+

text \<open>How the steps look to the specification.\<close>

lemma busy_moved:
  "stands s i q \<Longrightarrow> abs_pool (moved s i p) = \<lparr>busy = (if counted p then insert i (busy (abs_pool s)) else busy (abs_pool s) - {i}),
     count = n_active s\<rparr>"
  by (auto simp: abs_pool_def moved_def stands_def nth_list_update)

lemma busy_iff: "stands s i p \<Longrightarrow> i \<in> busy (abs_pool s) \<longleftrightarrow> counted p"
  by (auto simp: abs_pool_def stands_def)

lemma moved_same:
  assumes "stands s i q" and "counted p = counted q"
  shows "abs_pool (moved s i p) = abs_pool s"
proof -
  have "i \<in> busy (abs_pool s) \<longleftrightarrow> counted p" using busy_iff [OF assms(1)] assms(2) by simp
  then have "(if counted p then insert i (busy (abs_pool s)) else busy (abs_pool s) - {i}) = busy (abs_pool s)" by auto
  then show ?thesis unfolding busy_moved [OF assms(1)] by (simp add: abs_pool_def)
qed

lemma abs_upd [simp]:
  "abs_pool (s\<lparr>mutex := m\<rparr>) = abs_pool s" "abs_pool (s\<lparr>open_conns := c\<rparr>) = abs_pool s"
  "abs_pool (s\<lparr>watcher_at := x\<rparr>) = abs_pool s" "abs_pool (s\<lparr>signalled := g\<rparr>) = abs_pool s"
  "abs_pool (s\<lparr>known := k\<rparr>) = abs_pool s" "abs_pool (s\<lparr>owner_at := q\<rparr>) = abs_pool s"
  "abs_pool (s\<lparr>cancelled := g\<rparr>) = abs_pool s" "abs_pool (s\<lparr>watcher_cancelled := b\<rparr>) = abs_pool s"
  "abs_pool (s\<lparr>n_active := n\<rparr>) = (abs_pool s)\<lparr>count := n\<rparr>"
  by (simp_all add: abs_pool_def)

lemma abs_idle: "stands s i Accepting \<Longrightarrow> \<not> counted (worker_at w) \<Longrightarrow>
    abs_pool (s\<lparr>workers := (workers s)[i := w]\<rparr>) = abs_pool s"
  by (auto simp: abs_pool_def stands_def nth_list_update)

lemma abs_resized: "abs_pool (resized n s) = abs_pool s"
proof -
  obtain k where k: "workers (resized n s) = workers s @ replicate k new_worker" using resized_workers by blast
  have "workers (resized n s) ! i = (if i < length (workers s) then workers s ! i else new_worker)"
    if "i < length (workers s) + k" for i using that by (simp add: k nth_append)
  then show ?thesis by (auto simp: abs_pool_def k new_worker_def split: if_splits)
qed

lemma abs_worker:
  assumes "mutex_ok s" and "worker_step s s'"
  shows "abs_pool s' = abs_pool s \<or> spec_step (abs_pool s) (abs_pool s')"
  using assms(2)
proof cases
  case (write_inc i v)
  have "v = n_active s" using assms(1) write_inc(2) by (auto simp: mutex_ok_def)
  then have "abs_pool s' = \<lparr>busy = insert i (busy (abs_pool s)), count = count (abs_pool s) + 1\<rparr>"
    unfolding write_inc(1) by (simp add: busy_moved [OF write_inc(2)]) (simp add: abs_pool_def)
  then show ?thesis using busy_iff [OF write_inc(2)] by (auto intro: spec_step.begins)
next
  case (write_dec i v)
  have "v = n_active s" using assms(1) write_dec(2) by (auto simp: mutex_ok_def)
  then have "abs_pool s' = \<lparr>busy = busy (abs_pool s) - {i}, count = count (abs_pool s) - 1\<rparr>"
    unfolding write_dec(1) by (simp add: busy_moved [OF write_dec(2)]) (simp add: abs_pool_def)
  then show ?thesis using busy_iff [OF write_dec(2)] by (auto intro: spec_step.ends)
qed (auto simp: moved_same abs_idle cleaned_up_def)

lemma abs_others: "watcher_step s s' \<Longrightarrow> abs_pool s' = abs_pool s" "destroy_step s s' \<Longrightarrow> abs_pool s' = abs_pool s"
  by (erule watcher_step.cases; simp add: abs_resized) (erule destroy_step.cases; simp)

lemma abs_step: "mutex_ok s \<Longrightarrow> pool_step s s' \<Longrightarrow> abs_pool s' = abs_pool s \<or> spec_step (abs_pool s) (abs_pool s')"
  by (erule pool_step_cases) (simp_all add: abs_worker abs_others)

interpretation pool: simulation pool_init pool_step spec_init spec_step abs_pool mutex_ok
proof
  show "pool_init s \<Longrightarrow> spec_init (abs_pool s)" for s
    unfolding pool_init_def by (erule conjE, erule ssubst) (simp add: spec_init_def abs_pool_def new_worker_def)
qed (rule mutex_ok_init mutex_ok_step abs_step; assumption)+

section \<open>Properties\<close>


definition idle_pool :: pool_state where
  "idle_pool = \<lparr>workers = replicate 100 new_worker, watcher_at = Sleeping, mutex = None, n_active = 0,
     signalled = {}, cancelled = {}, watcher_cancelled = False, open_conns = {}, known = [0 ..< 100], limit = 200,
     owner_at = Using\<rparr>"

lemma idle_pool_reachable: "pool.concrete.reachable idle_pool"
  by (rule pool.concrete.start) (simp add: pool_init_def idle_pool_def INITIAL_THREADS_def)


text \<open>C11: in every state the threads reach, \<open>n_active_threads\<close> is the number of workers between their two
  updates of it, so it is never negative and never more than the workers; and at most one thread, worker or watcher,
  is between lock and unlock.\<close>

theorem counter_is_the_number_of_busy_workers:
  assumes "pool.concrete.reachable s"
  shows "n_active s = int (card {i. i < length (workers s) \<and> counted (worker_at (workers s ! i))}) \<and>
    0 \<le> n_active s \<and> n_active s \<le> int (length (workers s)) \<and>
    (\<forall>i j. i < length (workers s) \<and> j < length (workers s) \<and> holds (worker_at (workers s ! i)) \<and>
       holds (worker_at (workers s ! j)) \<longrightarrow> i = j \<and> \<not> watcher_holds (watcher_at s))"
proof -
  have c: "n_active s = int (card {i. i < length (workers s) \<and> counted (worker_at (workers s ! i))})"
    using spec_counts [OF pool.reachable_abs [OF assms]] by (simp add: abs_pool_def)
  moreover have "card {i. i < length (workers s) \<and> counted (worker_at (workers s ! i))} \<le> card {..< length (workers s)}"
    by (rule card_mono) auto
  moreover have "mutex_ok s" by (rule pool.reachable_inv [OF assms])
  ultimately show ?thesis by (auto simp: mutex_ok_def)
qed

theorem counter_is_the_number_of_busy_workers_witness: "n_active idle_pool = 0 \<and> watcher_at idle_pool = Sleeping"
  using counter_is_the_number_of_busy_workers [OF idle_pool_reachable]
  by (simp add: idle_pool_def new_worker_def)

end
