(* ===== verification/Pool_Runs.thy ===== *)
theory Pool_Runs
  imports Pool_Concurrency
begin

text \<open>
  Runs of the pool in which one thread moves at a time, as building blocks for reachable states, and a
  state that such a run reaches: a worker serves a connection that another one has closed.
\<close>

text \<open>A worker that takes a connection, and one that is done with it, while no other thread moves.\<close>

lemma step_to: "owner_at s \<noteq> Freed \<Longrightarrow> worker_step s t \<Longrightarrow> t = u \<Longrightarrow> pool_step s u"
  and owner_to: "owner_at s \<noteq> Freed \<Longrightarrow> destroy_step s t \<Longrightarrow> t = u \<Longrightarrow> pool_step s u"
  by (simp_all add: pool_step_def)

lemma unlocked: "mutex s = None \<Longrightarrow> s\<lparr>mutex := None\<rparr> = s"
  by (cases s) simp

lemma steps_serving:
  assumes "stands s i Accepting" and "mutex s = None" and "0 \<le> fd" and "fd \<notin> open_conns s"
    and "owner_at s \<noteq> Freed"
  shows "pool_step\<^sup>*\<^sup>* s (s\<lparr>workers := (workers s)[i := \<lparr>worker_at = Serving, client = fd\<rparr>],
    n_active := n_active s + 1, open_conns := insert fd (open_conns s)\<rparr>)"
proof -
  note upd = moved_def stands_def
  let ?s = "\<lambda>p m n. s\<lparr>workers := (workers s)[i := \<lparr>worker_at = p, client = fd\<rparr>], mutex := m, n_active := n,
    open_conns := insert fd (open_conns s)\<rparr>"
  let ?t = "s\<lparr>mutex := None\<rparr>"
  note t = unlocked [OF assms(2)]
  have i: "i < length (workers s)" using assms(1) by (simp add: stands_def)
  have "pool_step\<^sup>*\<^sup>* s ?t" unfolding t by (rule rtranclp.rtrancl_refl)
  then have "pool_step\<^sup>*\<^sup>* s (?s Accepted None (n_active s))"
    by (rule rtranclp.rtrancl_into_rtrancl) (rule step_to [OF _ accept [of ?t i fd]],
      use assms(1,3,4,5) in \<open>auto simp: upd intro: pool_state.equality\<close>)
  then have "pool_step\<^sup>*\<^sup>* s (?s Locking_Inc None (n_active s))"
    by (rule rtranclp.rtrancl_into_rtrancl)
      (rule step_to [OF _ block_signal [of "?s Accepted None (n_active s)" i]],
       use i assms(5) in \<open>auto simp: upd intro: pool_state.equality\<close>)
  then have "pool_step\<^sup>*\<^sup>* s (?s Reading_Inc (Some (Worker i)) (n_active s))"
    by (rule rtranclp.rtrancl_into_rtrancl)
      (rule step_to [OF _ lock_inc [of "?s Locking_Inc None (n_active s)" i]],
       use i assms(5) in \<open>auto simp: upd intro: pool_state.equality\<close>)
  then have "pool_step\<^sup>*\<^sup>* s (?s (Writing_Inc (n_active s)) (Some (Worker i)) (n_active s))"
    by (rule rtranclp.rtrancl_into_rtrancl)
      (rule step_to [OF _ read_inc [of "?s Reading_Inc (Some (Worker i)) (n_active s)" i]],
       use i assms(5) in \<open>auto simp: upd intro: pool_state.equality\<close>)
  then have "pool_step\<^sup>*\<^sup>* s (?s Unlocking_Inc (Some (Worker i)) (n_active s + 1))"
    by (rule rtranclp.rtrancl_into_rtrancl)
      (rule step_to [OF _ write_inc [of "?s (Writing_Inc (n_active s)) (Some (Worker i)) (n_active s)" i "n_active s"]],
       use i assms(5) in \<open>auto simp: upd intro: pool_state.equality\<close>)
  then have "pool_step\<^sup>*\<^sup>* s (?s Serving None (n_active s + 1))"
    by (rule rtranclp.rtrancl_into_rtrancl)
      (rule step_to [OF _ unlock_inc [of "?s Unlocking_Inc (Some (Worker i)) (n_active s + 1)" i]],
       use i assms(5) in \<open>auto simp: upd intro: pool_state.equality\<close>)
  then have "pool_step\<^sup>*\<^sup>* s (?t\<lparr>workers := (workers ?t)[i := \<lparr>worker_at = Serving, client = fd\<rparr>],
    n_active := n_active ?t + 1, open_conns := insert fd (open_conns ?t)\<rparr>)"
    by (rule back_subst) (auto intro: pool_state.equality)
  then show ?thesis unfolding t .
qed

lemma steps_idle_again:
  assumes "i < length (workers s)" and "workers s ! i = \<lparr>worker_at = Serving, client = fd\<rparr>"
    and "mutex s = None" and "owner_at s \<noteq> Freed" and "i \<notin> signalled s" and "i \<notin> cancelled s"
  shows "pool_step\<^sup>*\<^sup>* s (s\<lparr>workers := (workers s)[i := \<lparr>worker_at = Accepting, client = fd\<rparr>],
    n_active := n_active s - 1, open_conns := open_conns s - {fd}\<rparr>)"
proof -
  note upd = moved_def stands_def
  let ?s = "\<lambda>p m n. s\<lparr>workers := (workers s)[i := \<lparr>worker_at = p, client = fd\<rparr>], mutex := m, n_active := n,
    open_conns := open_conns s - {fd}\<rparr>"
  let ?t = "s\<lparr>mutex := None\<rparr>"
  note t = unlocked [OF assms(3)]
  have "pool_step\<^sup>*\<^sup>* s ?t" unfolding t by (rule rtranclp.rtrancl_refl)
  then have "pool_step\<^sup>*\<^sup>* s (moved ?t i Closing)"
    by (rule rtranclp.rtrancl_into_rtrancl)
      (rule step_to [OF _ serve [of ?t i]],
       use assms(1,2,4) in \<open>auto simp: upd intro: pool_state.equality\<close>)
  then have "pool_step\<^sup>*\<^sup>* s (?s Locking_Dec None (n_active s))"
    by (rule rtranclp.rtrancl_into_rtrancl) (rule step_to [OF _ close [of "moved ?t i Closing" i]],
      use assms(1,2,4,6) in \<open>auto simp: upd intro: pool_state.equality\<close>)
  then have "pool_step\<^sup>*\<^sup>* s (?s Reading_Dec (Some (Worker i)) (n_active s))"
    by (rule rtranclp.rtrancl_into_rtrancl)
      (rule step_to [OF _ lock_dec [of "?s Locking_Dec None (n_active s)" i]],
       use assms(1,4) in \<open>auto simp: upd intro: pool_state.equality\<close>)
  then have "pool_step\<^sup>*\<^sup>* s (?s (Writing_Dec (n_active s)) (Some (Worker i)) (n_active s))"
    by (rule rtranclp.rtrancl_into_rtrancl)
      (rule step_to [OF _ read_dec [of "?s Reading_Dec (Some (Worker i)) (n_active s)" i]],
       use assms(1,4) in \<open>auto simp: upd intro: pool_state.equality\<close>)
  then have "pool_step\<^sup>*\<^sup>* s (?s Unlocking_Dec (Some (Worker i)) (n_active s - 1))"
    by (rule rtranclp.rtrancl_into_rtrancl)
      (rule step_to [OF _ write_dec [of "?s (Writing_Dec (n_active s)) (Some (Worker i)) (n_active s)" i "n_active s"]],
       use assms(1,4) in \<open>auto simp: upd intro: pool_state.equality\<close>)
  then have "pool_step\<^sup>*\<^sup>* s (?s Unmasking None (n_active s - 1))"
    by (rule rtranclp.rtrancl_into_rtrancl)
      (rule step_to [OF _ unlock_dec [of "?s Unlocking_Dec (Some (Worker i)) (n_active s - 1)" i]],
       use assms(1,4) in \<open>auto simp: upd intro: pool_state.equality\<close>)
  then have "pool_step\<^sup>*\<^sup>* s (?s Accepting None (n_active s - 1))"
    by (rule rtranclp.rtrancl_into_rtrancl)
      (rule step_to [OF _ unblock_signal [of "?s Unmasking None (n_active s - 1)" i]],
       use assms(1,4,5) in \<open>auto simp: upd intro: pool_state.equality\<close>)
  then have "pool_step\<^sup>*\<^sup>* s (?t\<lparr>workers := (workers ?t)[i := \<lparr>worker_at = Accepting, client = fd\<rparr>],
    n_active := n_active ?t - 1, open_conns := open_conns ?t - {fd}\<rparr>)"
    by (rule back_subst) (auto intro: pool_state.equality)
  then show ?thesis unfolding t .
qed

lemma reach_serving:
  assumes "pool.concrete.reachable s" and "stands s i Accepting" and "mutex s = None" and "0 \<le> fd" and "fd \<notin> open_conns s"
    and "owner_at s \<noteq> Freed"
  shows "pool.concrete.reachable (s\<lparr>workers := (workers s)[i := \<lparr>worker_at = Serving, client = fd\<rparr>],
    n_active := n_active s + 1, open_conns := insert fd (open_conns s)\<rparr>)"
  by (rule pool.concrete.reachable_steps [OF steps_serving [OF assms(2-6)] assms(1)])

lemma reach_idle_again:
  assumes "pool.concrete.reachable s" and "i < length (workers s)" and "workers s ! i = \<lparr>worker_at = Serving, client = fd\<rparr>"
    and "mutex s = None" and "owner_at s \<noteq> Freed" and "i \<notin> signalled s" and "i \<notin> cancelled s"
  shows "pool.concrete.reachable (s\<lparr>workers := (workers s)[i := \<lparr>worker_at = Accepting, client = fd\<rparr>],
    n_active := n_active s - 1, open_conns := open_conns s - {fd}\<rparr>)"
  by (rule pool.concrete.reachable_steps [OF steps_idle_again [OF assms(2-7)] assms(1)])

text \<open>C21: a worker keeps the number of the connection it has closed until it accepts another. When the kernel
  gives that number to another worker's client and the first worker is soft-killed, it closes the other client's
  connection: there is a reachable state in which a worker serves a descriptor that is closed.\<close>

theorem soft_kill_closes_another_client:
  "\<exists>s fd. pool.concrete.reachable s \<and> stands s 0 Ended \<and> client (workers s ! 0) = fd \<and>
     stands s 1 Serving \<and> client (workers s ! 1) = fd \<and> fd \<notin> open_conns s"
proof -
  let ?w = "\<lambda>p. \<lparr>worker_at = p, client = 5\<rparr>"
  let ?ws = "replicate 100 new_worker"
  let ?s = "\<lambda>ws n c. idle_pool\<lparr>workers := ws, n_active := n, open_conns := c\<rparr>"
  have "pool.concrete.reachable (?s (?ws[0 := ?w Serving]) 1 {5})"
    using reach_serving [OF idle_pool_reachable, of 0 5] by (simp add: stands_def idle_pool_def new_worker_def)
  then have "pool.concrete.reachable (?s (?ws[0 := ?w Accepting]) 0 {})"
    using reach_idle_again [of "?s (?ws[0 := ?w Serving]) 1 {5}" 0 5] by (simp add: idle_pool_def)
  then have last: "pool.concrete.reachable (?s (?ws[0 := ?w Accepting, 1 := ?w Serving]) 1 {5})"
    using reach_serving [of "?s (?ws[0 := ?w Accepting]) 0 {}" 1 5] by (simp add: stands_def idle_pool_def new_worker_def)
  let ?k = "(?s (?ws[0 := ?w Accepting, 1 := ?w Serving]) 1 {5})\<lparr>watcher_cancelled := True, owner_at := Stopping SOFT\<rparr>"
  from last have "pool.concrete.reachable ?k"
    by (rule pool.concrete.further)
      (rule owner_to [OF _ destroy_begins [where type = SOFT]], auto simp: idle_pool_def)
  let ?m = "?k\<lparr>signalled := {0 ..< 100}, owner_at := Joining 0\<rparr>"
  from \<open>pool.concrete.reachable ?k\<close> have "pool.concrete.reachable ?m"
    by (rule pool.concrete.further) (rule owner_to [OF _ signal_all], auto simp: idle_pool_def)
  then have "pool.concrete.reachable ((moved ?m 0 Ended)\<lparr>open_conns := {}\<rparr>)"
    by (rule pool.concrete.further) (rule step_to [OF _ soft_killed [of ?m 0 Accepting]],
      auto simp: stands_def moved_def cleaned_up_def intro: pool_state.equality)
  then show ?thesis
    by (intro exI [of _ "(moved ?m 0 Ended)\<lparr>open_conns := {}\<rparr>"] exI [of _ 5]) (simp add: stands_def moved_def)
qed

end
