(* ===== verification/Pool_Shutdown.thy ===== *)
theory Pool_Shutdown
  imports Pool_Runs
begin

text \<open>
  The destruction of the pool while its threads run: what has ended when the pool is freed, that the
  destruction can be brought to its end from every state, and the thread that is not waited for.
\<close>

section \<open>What the destruction has waited for\<close>

definition shutdown_ok :: "pool_state \<Rightarrow> bool" where
  "shutdown_ok s \<longleftrightarrow> set (known s) \<subseteq> {..< length (workers s)} \<and> (owner_at s \<noteq> Using \<longrightarrow> watcher_cancelled s) \<and>
     (case owner_at s of
        Using \<Rightarrow> True
      | Stopping type \<Rightarrow> True
      | Joining j \<Rightarrow> j \<le> length (known s) \<and> set (known s) \<subseteq> signalled s \<union> cancelled s \<and> (\<forall>k < j. ended s (known s ! k))
      | Freed \<Rightarrow> \<forall>k < length (known s). ended s (known s ! k))"

lemma ended_iff: "ended s i \<longleftrightarrow> i < length (workers s) \<and> worker_at (workers s ! i) \<in> {Ended, Aborted}"
  by (auto simp: ended_def stands_def)

lemma shutdown_ok_init: "pool_init s \<Longrightarrow> shutdown_ok s"
  unfolding pool_init_def by (erule conjE, erule ssubst) (auto simp: shutdown_ok_def)

text \<open>A worker that has ended stays so, and the array and the owner are changed by the watcher and the owner only.\<close>

lemma ended_worker: "worker_step s s' \<Longrightarrow> ended s k \<Longrightarrow> ended s' k"
  by (erule worker_step.cases)
    (auto simp: ended_iff stands_def moved_def cleaned_up_def nth_list_update split: if_splits)

lemma ended_watcher: "watcher_step s s' \<Longrightarrow> ended s k \<Longrightarrow> ended s' k"
proof (erule watcher_step.cases)
  fix e goal n t
  assume "s' = (resized n t)\<lparr>watcher_at := Sleeping\<rparr>" "s = t" "ended s k"
  then show "ended s' k" using resized_workers [of n t] by (auto simp: ended_iff nth_append)
qed (auto simp: ended_iff)

lemma ended_destroy: "destroy_step s s' \<Longrightarrow> ended s' = ended s"
  by (erule destroy_step.cases) (simp_all add: fun_eq_iff ended_iff)

lemma ended_step: "pool_step s s' \<Longrightarrow> ended s k \<Longrightarrow> ended s' k"
  by (erule pool_step_cases) (simp_all add: ended_worker ended_watcher ended_destroy)

text \<open>The steps of the workers, and those of the watcher outside its critical section, leave the rest alone.\<close>

lemma shutdown_ok_keep:
  assumes "shutdown_ok s" and "\<And>k. ended s k \<Longrightarrow> ended s' k" and "known s' = known s" and "owner_at s' = owner_at s"
    and "signalled s' = signalled s" and "cancelled s' = cancelled s" and "watcher_cancelled s' = watcher_cancelled s"
    and "length (workers s') = length (workers s)"
  shows "shutdown_ok s'"
  using assms by (auto simp: shutdown_ok_def split: owner_pc.splits)

lemma shutdown_ok_worker:
  assumes "shutdown_ok s" and "worker_step s s'"
  shows "shutdown_ok s'"
  using assms(2)
  by (cases; intro shutdown_ok_keep [OF assms(1) ended_worker [OF assms(2)]]) (simp_all add: moved_def cleaned_up_def)

lemma shutdown_ok_watcher:
  assumes "shutdown_ok s" and "watcher_step s s'"
  shows "shutdown_ok s'"
  using assms(2)
proof cases
  case (watcher_resizes e goal n)
  have "set (known (resized n s)) \<subseteq> {..< length (workers (resized n s))}"
    using assms(1) by (auto simp: shutdown_ok_def resized_def Let_def dest: in_set_takeD)
  then show ?thesis using watcher_resizes by (simp add: shutdown_ok_def)
qed (rule shutdown_ok_keep [OF assms(1) ended_watcher [OF assms(2)]]; simp)+

lemma shutdown_ok_destroy:
  assumes "shutdown_ok s" and "destroy_step s s'"
  shows "shutdown_ok s'"
  using assms(2,1) ended_destroy [OF assms(2)]
  by cases (auto simp: shutdown_ok_def less_Suc_eq)

lemma shutdown_ok_step: "shutdown_ok s \<Longrightarrow> pool_step s s' \<Longrightarrow> shutdown_ok s'"
  by (erule pool_step_cases) (rule shutdown_ok_worker shutdown_ok_watcher shutdown_ok_destroy; assumption)+

lemma shutdown_ok_reachable: "pool.concrete.reachable s \<Longrightarrow> shutdown_ok s"
  by (erule pool.concrete.invariant) (auto intro: shutdown_ok_init shutdown_ok_step)

section \<open>Running one worker to its end\<close>

text \<open>How many steps a worker is at most from the place where a signal or a cancellation ends it.\<close>

fun rank :: "worker_pc \<Rightarrow> nat" where
  "rank Accepted = 13" | "rank Locking_Inc = 12" | "rank Reading_Inc = 11" | "rank (Writing_Inc v) = 10"
| "rank Unlocking_Inc = 9" | "rank Serving = 8" | "rank Closing = 7" | "rank Locking_Dec = 6" | "rank Reading_Dec = 5"
| "rank (Writing_Dec v) = 4" | "rank Unlocking_Dec = 3" | "rank Unmasking = 2" | "rank Accepting = 1"
| "rank Ended = 0" | "rank Aborted = 0"

lemma rank_0: "rank p = 0 \<longleftrightarrow> p = Ended \<or> p = Aborted"
  by (cases p) simp_all

text \<open>What the steps of workers leave alone.\<close>

definition beside :: "pool_state \<Rightarrow> pool_state \<Rightarrow> bool" where
  "beside s s' \<longleftrightarrow> length (workers s') = length (workers s) \<and> watcher_at s' = watcher_at s \<and> signalled s' = signalled s \<and>
     cancelled s' = cancelled s \<and> watcher_cancelled s' = watcher_cancelled s \<and> known s' = known s \<and> limit s' = limit s \<and>
     owner_at s' = owner_at s"

lemma beside_refl: "beside s s"
  by (simp add: beside_def)

lemma beside_trans: "beside s t \<Longrightarrow> beside t u \<Longrightarrow> beside s u"
  by (simp add: beside_def)

lemma beside_moved: "beside s (moved s i p)" "beside s ((moved s i p)\<lparr>mutex := m\<rparr>)" "beside s ((moved s i p)\<lparr>n_active := n\<rparr>)"
  "beside s ((moved s i p)\<lparr>open_conns := c\<rparr>)" "beside s (cleaned_up s i p)"
  by (simp_all add: beside_def moved_def cleaned_up_def)

text \<open>A worker that nobody keeps from the mutex can go on, one step nearer to its end.\<close>

lemma worker_advances:
  assumes ok: "mutex_ok s" and run: "owner_at s \<noteq> Freed" and i: "i < length (workers s)" and p: "0 < rank (worker_at (workers s ! i))"
    and free: "mutex s = None \<or> mutex s = Some (Worker i)"
    and kill: "worker_at (workers s ! i) = Accepting \<longrightarrow> i \<in> signalled s \<union> cancelled s"
  obtains s' where "pool_step s s'" and "beside s s'" and "rank (worker_at (workers s' ! i)) < rank (worker_at (workers s ! i))"
    and "mutex s' = None \<or> mutex s' = Some (Worker i)"
proof -
  note finish = that
  have st: "stands s i (worker_at (workers s ! i))" using i by (simp add: stands_def)
  have step: thesis if "worker_step s t" "beside s t" "worker_at (workers t ! i) = q"
    "rank q < rank (worker_at (workers s ! i))" "mutex t = None \<or> mutex t = Some (Worker i)" for t q
    by (rule finish [OF worker_moves [OF run that(1)] that(2)]) (use that(3-5) in simp_all)
  have lock: "mutex s = None" if "\<not> holds (worker_at (workers s ! i))"
    using ok that free i by (auto simp: mutex_ok_def)
  note sel = moved_def cleaned_up_def
  show thesis
  proof (cases "worker_at (workers s ! i)")
    case Accepting
    with kill have "i \<in> signalled s \<or> i \<in> cancelled s" by simp
    then have "worker_step s (cleaned_up s i Ended)"
      using soft_killed [of s i Accepting] cancelled_idle [of s i] st Accepting by auto
    then show thesis using Accepting free i by (intro step [of "cleaned_up s i Ended" Ended] beside_moved) (simp_all add: sel)
  next
    case Accepted
    then show thesis using st free i
      by (intro step [OF block_signal [of s i], of Locking_Inc] beside_moved) (simp_all add: sel)
  next
    case Locking_Inc
    then show thesis using st lock i
      by (intro step [OF lock_inc [of s i], of Reading_Inc] beside_moved) (simp_all add: sel)
  next
    case Reading_Inc
    then show thesis using st free i
      by (intro step [OF read_inc [of s i], of "Writing_Inc (n_active s)"] beside_moved) (simp_all add: sel)
  next
    case (Writing_Inc v)
    then show thesis using st free i
      by (intro step [OF write_inc [of s i v], of Unlocking_Inc] beside_moved) (simp_all add: sel)
  next
    case Unlocking_Inc
    then show thesis using st i
      by (intro step [OF unlock_inc [of s i], of Serving] beside_moved) (simp_all add: sel)
  next
    case Serving
    then show thesis using st free i
      by (intro step [OF serve [of s i], of Closing] beside_moved) (simp_all add: sel)
  next
    case Closing
    then show thesis using st free i step [OF close [of s i], of Locking_Dec] step [OF cancelled_busy [of s i Closing], of Aborted]
      by (cases "i \<in> cancelled s") (simp_all add: beside_moved, simp_all add: sel)
  next
    case Locking_Dec
    then show thesis using st lock i
      by (intro step [OF lock_dec [of s i], of Reading_Dec] beside_moved) (simp_all add: sel)
  next
    case Reading_Dec
    then show thesis using st free i
      by (intro step [OF read_dec [of s i], of "Writing_Dec (n_active s)"] beside_moved) (simp_all add: sel)
  next
    case (Writing_Dec v)
    then show thesis using st free i
      by (intro step [OF write_dec [of s i v], of Unlocking_Dec] beside_moved) (simp_all add: sel)
  next
    case Unlocking_Dec
    then show thesis using st i
      by (intro step [OF unlock_dec [of s i], of Unmasking] beside_moved) (simp_all add: sel)
  next
    case Unmasking
    then show thesis using st free i step [OF unblock_signal [of s i], of Accepting] step [OF soft_killed [of s i Unmasking], of Ended]
      by (cases "i \<in> signalled s") (simp_all add: beside_moved, simp_all add: sel)
  qed (use p in simp_all)
qed

lemma ended_steps: "pool_step\<^sup>*\<^sup>* s s' \<Longrightarrow> ended s k \<Longrightarrow> ended s' k"
  by (induction rule: rtranclp_induct) (auto intro: ended_step)

lemma worker_ends:
  assumes "mutex_ok s" and "owner_at s \<noteq> Freed" and "i < length (workers s)" and "mutex s = None \<or> mutex s = Some (Worker i)"
    and "i \<in> signalled s \<union> cancelled s"
  shows "\<exists>s'. pool_step\<^sup>*\<^sup>* s s' \<and> mutex_ok s' \<and> beside s s' \<and> ended s' i \<and> mutex s' = None"
  using assms
proof (induction "rank (worker_at (workers s ! i))" arbitrary: s rule: less_induct)
  case less
  show ?case
  proof (cases "rank (worker_at (workers s ! i)) = 0")
    case True
    then have "ended s i" "\<not> holds (worker_at (workers s ! i))" using less.prems(3) by (auto simp: ended_iff rank_0)
    moreover then have "mutex s = None" using less.prems(1,3,4) by (auto simp: mutex_ok_def)
    ultimately show ?thesis using less.prems(1) beside_refl by blast
  next
    case False
    then obtain t where t: "pool_step s t" "beside s t" "rank (worker_at (workers t ! i)) < rank (worker_at (workers s ! i))"
      "mutex t = None \<or> mutex t = Some (Worker i)"
      using worker_advances [OF less.prems(1-3) _ less.prems(4)] less.prems(5) by (metis neq0_conv)
    have "\<exists>s'. pool_step\<^sup>*\<^sup>* t s' \<and> mutex_ok s' \<and> beside t s' \<and> ended s' i \<and> mutex s' = None"
      using t(2) less.prems(2,3,5) by (intro less.hyps [OF t(3) mutex_ok_step [OF less.prems(1) t(1)] _ _ t(4)]) (simp_all add: beside_def)
    then show ?thesis using t(1,2) beside_trans converse_rtranclp_into_rtranclp [of pool_step] by metis
  qed
qed

text \<open>The owner of the mutex gives it back: it waits for nobody, and neither a signal nor a cancellation ends it before.\<close>

lemma worker_unlocks:
  assumes "mutex_ok s" and "owner_at s \<noteq> Freed" and "mutex s = Some (Worker i)"
  shows "\<exists>s'. pool_step\<^sup>*\<^sup>* s s' \<and> mutex_ok s' \<and> beside s s' \<and> mutex s' = None"
  using assms
proof (induction "rank (worker_at (workers s ! i))" arbitrary: s rule: less_induct)
  case less
  have i: "i < length (workers s)" "holds (worker_at (workers s ! i))" using less.prems(1,3) by (auto simp: mutex_ok_def)
  then have "0 < rank (worker_at (workers s ! i))" "worker_at (workers s ! i) \<noteq> Accepting"
    by (cases "worker_at (workers s ! i)"; simp)+
  then obtain t where t: "pool_step s t" "beside s t" "rank (worker_at (workers t ! i)) < rank (worker_at (workers s ! i))"
    "mutex t = None \<or> mutex t = Some (Worker i)"
    using worker_advances [OF less.prems(1,2) i(1)] less.prems(3) by metis
  have ok: "mutex_ok t" using mutex_ok_step [OF less.prems(1) t(1)] .
  have "\<exists>s'. pool_step\<^sup>*\<^sup>* t s' \<and> mutex_ok s' \<and> beside t s' \<and> mutex s' = None"
  proof (cases "mutex t")
    case None
    then show ?thesis using ok beside_refl by blast
  next
    case (Some x)
    then have "mutex t = Some (Worker i)" using t(4) by simp
    then show ?thesis using t(2) less.prems(2) by (intro less.hyps [OF t(3) ok]) (simp_all add: beside_def)
  qed
  then show ?case using t(1,2) beside_trans converse_rtranclp_into_rtranclp [of pool_step] by metis
qed

lemma workers_end:
  assumes "mutex_ok s" and "owner_at s \<noteq> Freed" and "mutex s = None"
    and "set ks \<subseteq> {..< length (workers s)}" and "set ks \<subseteq> signalled s \<union> cancelled s"
  shows "\<exists>s'. pool_step\<^sup>*\<^sup>* s s' \<and> mutex_ok s' \<and> beside s s' \<and> mutex s' = None \<and> (\<forall>k \<in> set ks. ended s' k)"
  using assms
proof (induction ks arbitrary: s)
  case Nil
  then show ?case using beside_refl by auto
next
  case (Cons k ks)
  obtain t where t: "pool_step\<^sup>*\<^sup>* s t" "mutex_ok t" "beside s t" "ended t k" "mutex t = None"
    using worker_ends [OF Cons.prems(1,2), of k] Cons.prems(3-5) by auto
  obtain u where u: "pool_step\<^sup>*\<^sup>* t u" "mutex_ok u" "beside t u" "mutex u = None" "\<forall>j \<in> set ks. ended u j"
    using Cons.IH [OF t(2) _ t(5)] t(3) Cons.prems(2,4,5) unfolding beside_def by auto
  have "ended u k" using ended_steps [OF u(1) t(4)] .
  then show ?case using t u beside_trans [OF t(3) u(3)] by (intro exI [of _ u]) auto
qed

lemma watcher_unlocks:
  assumes "mutex_ok s" and "owner_at s \<noteq> Freed" and "mutex s = Some Watcher"
  shows "\<exists>s' v. pool_step\<^sup>*\<^sup>* s s' \<and> s' = s\<lparr>watcher_at := Deciding v, mutex := None\<rparr>"
proof -
  have unlock: "pool_step t (t\<lparr>watcher_at := Deciding v, mutex := None\<rparr>)" if "watcher_at t = Unlocking v" "owner_at t \<noteq> Freed" for t v
    using that by (intro watcher_moves watcher_unlocks)
  have "watcher_holds (watcher_at s)" using assms(1,3) by (auto simp: mutex_ok_def)
  then consider "watcher_at s = Reading" | v where "watcher_at s = Unlocking v" by (cases "watcher_at s") auto
  then show ?thesis
  proof cases
    case 1
    let ?t = "s\<lparr>watcher_at := Unlocking (n_active s)\<rparr>"
    have "pool_step s ?t" using 1 assms(2) by (intro watcher_moves watcher_reads)
    moreover have "pool_step ?t (s\<lparr>watcher_at := Deciding (n_active s), mutex := None\<rparr>)"
      using unlock [of ?t "n_active s"] assms(2) by simp
    ultimately have "pool_step\<^sup>*\<^sup>* s (s\<lparr>watcher_at := Deciding (n_active s), mutex := None\<rparr>)"
      by (rule converse_rtranclp_into_rtranclp [OF _ r_into_rtranclp])
    then show ?thesis by blast
  next
    case 2
    then show ?thesis using unlock assms(2) by blast
  qed
qed

text \<open>What is not the business of the threads that use the mutex.\<close>

definition same_stop :: "pool_state \<Rightarrow> pool_state \<Rightarrow> bool" where
  "same_stop s s' \<longleftrightarrow> length (workers s') = length (workers s) \<and> signalled s' = signalled s \<and> cancelled s' = cancelled s \<and>
     known s' = known s \<and> owner_at s' = owner_at s"

lemma beside_same_stop: "beside s s' \<Longrightarrow> same_stop s s'"
  by (simp add: beside_def same_stop_def)

lemma mutex_released:
  assumes "mutex_ok s" and "owner_at s \<noteq> Freed"
  shows "\<exists>s'. pool_step\<^sup>*\<^sup>* s s' \<and> mutex_ok s' \<and> same_stop s s' \<and> mutex s' = None"
proof (cases "mutex s")
  case None
  then show ?thesis using assms(1) beside_same_stop [OF beside_refl] by blast
next
  case (Some x)
  show ?thesis
  proof (cases x)
    case (Worker i)
    then show ?thesis using worker_unlocks [OF assms, of i] Some beside_same_stop by blast
  next
    case Watcher
    then obtain s' v where s': "pool_step\<^sup>*\<^sup>* s s'" "s' = s\<lparr>watcher_at := Deciding v, mutex := None\<rparr>"
      using watcher_unlocks [OF assms] Some by blast
    have "mutex_ok s'" using s'(1) assms(1) by (induction rule: rtranclp_induct) (auto intro: mutex_ok_step)
    then show ?thesis using s' by (intro exI [of _ s']) (simp add: same_stop_def)
  qed
qed

text \<open>From the state in which the owner waits to the end.\<close>

lemma joins_all:
  assumes "owner_at t = Joining j" and "j \<le> length (known t)" and "\<forall>k \<in> set (known t). ended t k"
  shows "\<exists>s'. pool_step\<^sup>*\<^sup>* t s' \<and> owner_at s' = Freed \<and> watcher_at s' = watcher_at t"
  using assms
proof (induction "length (known t) - j" arbitrary: t j)
  case 0
  then have "pool_step t (t\<lparr>owner_at := Freed\<rparr>)" by (intro owner_moves release) simp_all
  then show ?case by (intro exI [of _ "t\<lparr>owner_at := Freed\<rparr>"]) auto
next
  case (Suc n)
  let ?u = "t\<lparr>owner_at := Joining (Suc j)\<rparr>"
  have "pool_step t ?u" using Suc by (intro owner_moves join) simp_all
  moreover have "\<exists>s'. pool_step\<^sup>*\<^sup>* ?u s' \<and> owner_at s' = Freed \<and> watcher_at s' = watcher_at ?u"
    using Suc.prems Suc.hyps(2) by (intro Suc.hyps(1) [of ?u "Suc j"]) (simp_all add: ended_iff)
  moreover have "watcher_at ?u = watcher_at t" by simp
  ultimately show ?case using converse_rtranclp_into_rtranclp [of pool_step] by metis
qed

lemma finish_joining:
  assumes "mutex_ok t" and "shutdown_ok t" and "owner_at t = Joining j"
  shows "\<exists>s'. pool_step\<^sup>*\<^sup>* t s' \<and> owner_at s' = Freed"
proof -
  obtain u where u: "pool_step\<^sup>*\<^sup>* t u" "mutex_ok u" "same_stop t u" "mutex u = None"
    using mutex_released [OF assms(1)] assms(3) by auto
  obtain v where v: "pool_step\<^sup>*\<^sup>* u v" "beside u v" "\<forall>k \<in> set (known u). ended v k"
    using workers_end [OF u(2) _ u(4), of "known u"] u(3) assms(2,3) by (auto simp: same_stop_def shutdown_ok_def)
  have "\<exists>s'. pool_step\<^sup>*\<^sup>* v s' \<and> owner_at s' = Freed \<and> watcher_at s' = watcher_at v"
    using u(3) v(2,3) assms(2,3) by (intro joins_all [of v j]) (simp_all add: same_stop_def beside_def shutdown_ok_def)
  then show ?thesis using u(1) v(1) by (meson rtranclp_trans)
qed

section \<open>Properties\<close>

text \<open>C12: the destruction waits for the threads of the array: when the pool is freed, in whatever order the threads
  took their steps, each of them has ended, and none of them owns the mutex that is destroyed. While it waits for the
  thread at index \<open>j\<close>, those before it have ended.\<close>

theorem freed_after_the_known_workers:
  assumes "pool.concrete.reachable s"
  shows "case owner_at s of
      Using \<Rightarrow> True
    | Stopping type \<Rightarrow> watcher_cancelled s
    | Joining j \<Rightarrow> watcher_cancelled s \<and> (\<forall>k < j. ended s (known s ! k))
    | Freed \<Rightarrow> watcher_cancelled s \<and> (\<forall>i \<in> set (known s). ended s i \<and> mutex s \<noteq> Some (Worker i))"
proof -
  have ok: "shutdown_ok s" "mutex_ok s" using shutdown_ok_reachable [OF assms] pool.reachable_inv [OF assms] .
  have "mutex s \<noteq> Some (Worker i)" if "ended s i" for i
    using ok(2) that by (auto simp: mutex_ok_def ended_iff)
  moreover have "\<forall>i \<in> set (known s). ended s i" if "owner_at s = Freed"
    using ok(1) that by (auto simp: shutdown_ok_def in_set_conv_nth)
  ultimately show ?thesis
    using ok(1) by (simp add: shutdown_ok_def split: owner_pc.splits)
qed

text \<open>A run in which the watcher is awake when the pool of idle workers is destroyed.\<close>

definition awake_stop :: pool_state where
  "awake_stop = idle_pool\<lparr>watcher_at := Locking, watcher_cancelled := True, cancelled := {0 ..< 100}, owner_at := Joining 0\<rparr>"

lemma awake_stop_reachable: "pool.concrete.reachable awake_stop"
proof -
  have "pool.concrete.reachable (idle_pool\<lparr>watcher_at := Locking\<rparr>)" (is "pool.concrete.reachable ?a")
    by (rule pool.concrete.further [OF idle_pool_reachable], rule watcher_moves [OF _ watcher_wakes]) (simp_all add: idle_pool_def)
  then have "pool.concrete.reachable (?a\<lparr>watcher_cancelled := True, owner_at := Stopping HARD\<rparr>)" (is "pool.concrete.reachable ?b")
    by (rule pool.concrete.further) (rule owner_moves [OF _ destroy_begins], simp_all add: idle_pool_def)
  then have "pool.concrete.reachable (?b\<lparr>cancelled := cancelled ?b \<union> set (known ?b), owner_at := Joining 0\<rparr>)"
    by (rule pool.concrete.further) (rule owner_moves [OF _ cancel_all], simp_all)
  then show ?thesis by (rule back_subst) (auto simp: awake_stop_def idle_pool_def)
qed

lemma freed_while_awake: "\<exists>s. pool.concrete.reachable s \<and> owner_at s = Freed \<and> watcher_at s = Locking"
proof -
  have ok: "mutex_ok awake_stop" using pool.reachable_inv [OF awake_stop_reachable] .
  have sel: "owner_at awake_stop \<noteq> Freed" "mutex awake_stop = None" "set [0 ..< 100] \<subseteq> {..< length (workers awake_stop)}"
    "set [0 ..< 100] \<subseteq> signalled awake_stop \<union> cancelled awake_stop"
    by (auto simp: awake_stop_def idle_pool_def)
  obtain t where t: "pool_step\<^sup>*\<^sup>* awake_stop t" "beside awake_stop t" "\<forall>k \<in> {0 ..< 100}. ended t k"
    using workers_end [OF ok sel] by auto
  obtain u where u: "pool_step\<^sup>*\<^sup>* t u" "owner_at u = Freed" "watcher_at u = Locking"
    using joins_all [of t 0] t(2,3) by (auto simp: beside_def awake_stop_def idle_pool_def)
  have "pool.concrete.reachable u"
    using pool.concrete.reachable_steps [OF rtranclp_trans [OF t(1) u(1)] awake_stop_reachable] .
  with u show ?thesis by blast
qed

theorem freed_after_the_known_workers_witness:
  "\<exists>s. owner_at s = Freed \<and> watcher_cancelled s \<and> (\<forall>i \<in> set (known s). ended s i \<and> mutex s \<noteq> Some (Worker i))"
proof -
  obtain s where s: "pool.concrete.reachable s" "owner_at s = Freed" using freed_while_awake by blast
  from freed_after_the_known_workers [OF s(1)] s(2) show ?thesis by auto
qed

text \<open>C29: nobody waits for the watcher. It is cancelled, but it looks at this only when it sleeps: when it was
  awake, the pool can be freed before it locks the mutex that lies in the pool and reads the counter there.\<close>

theorem watcher_may_outlive_the_pool:
  "\<exists>s. pool.concrete.reachable s \<and> owner_at s = Freed \<and> watcher_at s = Locking"
  by (rule freed_while_awake)



end
