(* ===== verification/Pool_Kill.thy ===== *)
theory Pool_Kill
  imports Pool_Shutdown
begin

text \<open>
  What a soft kill or a cancellation does to one thread, in every interleaving with the others: how far it is
  from its end, and how many clients it can still accept. This holds for the threads that the destruction stops and for
  those that the watcher drops.
\<close>

section \<open>How far a thread is from its end\<close>

text \<open>A thread that was sent the signal ends where it unblocks the signal, at the latest.\<close>

fun soft_rank :: "worker_pc \<Rightarrow> nat" where
  "soft_rank Accepting = 13" | "soft_rank Accepted = 12" | "soft_rank Locking_Inc = 11" | "soft_rank Reading_Inc = 10"
| "soft_rank (Writing_Inc v) = 9" | "soft_rank Unlocking_Inc = 8" | "soft_rank Serving = 7" | "soft_rank Closing = 6"
| "soft_rank Locking_Dec = 5" | "soft_rank Reading_Dec = 4" | "soft_rank (Writing_Dec v) = 3"
| "soft_rank Unlocking_Dec = 2" | "soft_rank Unmasking = 1" | "soft_rank Ended = 0" | "soft_rank Aborted = 0"

text \<open>A thread that was cancelled ends where it closes a connection, at the latest.\<close>

fun hard_rank :: "worker_pc \<Rightarrow> nat" where
  "hard_rank Locking_Dec = 13" | "hard_rank Reading_Dec = 12" | "hard_rank (Writing_Dec v) = 11"
| "hard_rank Unlocking_Dec = 10" | "hard_rank Unmasking = 9" | "hard_rank Accepting = 8" | "hard_rank Accepted = 7"
| "hard_rank Locking_Inc = 6" | "hard_rank Reading_Inc = 5" | "hard_rank (Writing_Inc v) = 4" | "hard_rank Unlocking_Inc = 3"
| "hard_rank Serving = 2" | "hard_rank Closing = 1" | "hard_rank Ended = 0" | "hard_rank Aborted = 0"

lemma rank_le: "soft_rank p \<le> 13" "hard_rank p \<le> 13"
  by (cases p; simp)+

definition place :: "pool_state \<Rightarrow> nat \<Rightarrow> worker_pc" where
  "place s i = worker_at (workers s ! i)"

lemma place_moved: "j < length (workers s) \<Longrightarrow> place (moved s j p) i = (if i = j then p else place s i)"
  "j < length (workers s) \<Longrightarrow> place (cleaned_up s j p) i = (if i = j then p else place s i)"
  by (simp_all add: place_def moved_def cleaned_up_def nth_list_update)

lemma place_upd [simp]:
  "place (s\<lparr>mutex := m\<rparr>) = place s" "place (s\<lparr>n_active := n\<rparr>) = place s" "place (s\<lparr>open_conns := c\<rparr>) = place s"
  "place (s\<lparr>watcher_at := x\<rparr>) = place s" "place (s\<lparr>owner_at := q\<rparr>) = place s" "place (s\<lparr>signalled := g\<rparr>) = place s"
  "place (s\<lparr>cancelled := g\<rparr>) = place s" "place (s\<lparr>watcher_cancelled := b\<rparr>) = place s"
  by (simp_all add: place_def fun_eq_iff)

lemma place_set: "place (s\<lparr>workers := (workers s)[j := w]\<rparr>) i
    = (if i = j \<and> j < length (workers s) then worker_at w else place s i)"
  by (cases "j < length (workers s)") (auto simp: place_def nth_list_update not_less list_update_beyond)

lemma stands_place: "stands s i p \<longleftrightarrow> i < length (workers s) \<and> place s i = p"
  by (simp add: stands_def place_def)

text \<open>The steps of the watcher and of the owner of the pool move no worker.\<close>

lemma place_watcher: "watcher_step s s' \<Longrightarrow> i < length (workers s) \<Longrightarrow> place s' i = place s i"
proof (erule watcher_step.cases)
  fix e goal n t
  assume "i < length (workers s)" "s' = (resized n t)\<lparr>watcher_at := Sleeping\<rparr>" "s = t"
  then show "place s' i = place s i" using resized_workers [of n t] by (auto simp: place_def nth_append)
qed simp_all

lemma place_destroy: "destroy_step s s' \<Longrightarrow> place s' = place s"
  by (erule destroy_step.cases) simp_all

lemma soft_worker: "worker_step s s' \<Longrightarrow> i \<in> signalled s \<Longrightarrow> place s' i = place s i \<or> soft_rank (place s' i) < soft_rank (place s i)"
  by (erule worker_step.cases) (auto simp: place_moved place_set stands_place)

lemma hard_worker: "worker_step s s' \<Longrightarrow> i \<in> cancelled s \<Longrightarrow> place s' i = place s i \<or> hard_rank (place s' i) < hard_rank (place s i)"
  by (erule worker_step.cases) (auto simp: place_moved place_set stands_place)

text \<open>Signals and cancellations stay, and no thread is forgotten.\<close>

lemma kill_stays:
  assumes "pool_step s s'"
  shows "signalled s \<subseteq> signalled s'" "cancelled s \<subseteq> cancelled s'" "length (workers s) \<le> length (workers s')"
proof -
  have "signalled s \<subseteq> signalled s' \<and> cancelled s \<subseteq> cancelled s' \<and> length (workers s) \<le> length (workers s')"
    using assms
  proof (cases rule: pool_step_cases)
    case 1
    then show ?thesis by cases (simp_all add: moved_def cleaned_up_def)
  next
    case 2
    then show ?thesis by cases (auto simp: resized_def Let_def)
  next
    case 3
    then show ?thesis by cases auto
  qed
  then show "signalled s \<subseteq> signalled s'" "cancelled s \<subseteq> cancelled s'" "length (workers s) \<le> length (workers s')" by simp_all
qed

lemma kill_step:
  assumes "pool_step s s'" and "i < length (workers s)"
  shows "i \<in> signalled s \<Longrightarrow> place s' i = place s i \<or> soft_rank (place s' i) < soft_rank (place s i)"
    and "i \<in> cancelled s \<Longrightarrow> place s' i = place s i \<or> hard_rank (place s' i) < hard_rank (place s i)"
  using assms by (auto elim!: pool_step_cases dest: soft_worker hard_worker place_watcher place_destroy)

section \<open>Runs\<close>

definition pool_run :: "nat \<Rightarrow> (nat \<Rightarrow> pool_state) \<Rightarrow> bool" where
  "pool_run N f \<longleftrightarrow> (\<forall>n<N. pool_step (f n) (f (Suc n)))"

lemma killed_in_run:
  assumes "pool_run N f" and "i < length (workers (f 0))"
  shows "n \<le> N \<Longrightarrow> i < length (workers (f n)) \<and> (i \<in> signalled (f 0) \<longrightarrow> i \<in> signalled (f n)) \<and>
    (i \<in> cancelled (f 0) \<longrightarrow> i \<in> cancelled (f n))"
proof (induction n)
  case 0
  then show ?case using assms(2) by simp
next
  case (Suc n)
  then have "pool_step (f n) (f (Suc n))" using assms(1) by (simp add: pool_run_def)
  from kill_stays [OF this] Suc show ?case by auto
qed

text \<open>Along a run the distance of a killed thread shrinks with each of its moves.\<close>

lemma kill_variant:
  assumes run: "pool_run N f" and i: "i < length (workers (f 0))" and kill: "i \<in> signalled (f 0) \<union> cancelled (f 0)"
  obtains r where "\<And>p. r p \<le> (13::nat)"
    and "\<And>n. n < N \<Longrightarrow> place (f (Suc n)) i = place (f n) i \<or> r (place (f (Suc n)) i) < r (place (f n) i)"
proof (cases "i \<in> signalled (f 0)")
  case True
  show thesis
  proof (rule that [OF rank_le(1)])
    fix n
    assume "n < N"
    then show "place (f (Suc n)) i = place (f n) i \<or> soft_rank (place (f (Suc n)) i) < soft_rank (place (f n) i)"
      using kill_step(1) killed_in_run [OF run i, of n] run True by (simp add: pool_run_def)
  qed
next
  case False
  show thesis
  proof (rule that [OF rank_le(2)])
    fix n
    assume "n < N"
    then show "place (f (Suc n)) i = place (f n) i \<or> hard_rank (place (f (Suc n)) i) < hard_rank (place (f n) i)"
      using kill_step(2) killed_in_run [OF run i, of n] run kill False by (simp add: pool_run_def)
  qed
qed

section \<open>Properties\<close>

text \<open>C9: a thread that was sent the signal or was cancelled stops soon, whatever the others do: in any run from there on,
  however long, it moves at most 13 times from one place of its function to another (an \<open>accept\<close> that fails leaves it where
  it is), and it accepts at most one more client.\<close>

theorem killed_thread_stops_soon:
  assumes "pool_run N f" and "i < length (workers (f 0))" and "i \<in> signalled (f 0) \<union> cancelled (f 0)"
  shows "card {n. n < N \<and> place (f (Suc n)) i \<noteq> place (f n) i} \<le> 13 \<and>
    card {n. n < N \<and> place (f n) i = Accepting \<and> place (f (Suc n)) i = Accepted} \<le> 1"
proof -
  obtain r where r: "\<And>p. r p \<le> (13::nat)"
    and down: "\<And>n. n < N \<Longrightarrow> place (f (Suc n)) i = place (f n) i \<or> r (place (f (Suc n)) i) < r (place (f n) i)"
    using kill_variant [OF assms] by metis
  have "card {n. n < N \<and> place (f (Suc n)) i \<noteq> place (f n) i} \<le> r (place (f 0) i)"
    using down by (intro card_drops [of N "\<lambda>n. r (place (f n) i)"]) fastforce+
  moreover have "card {n. n < N \<and> place (f n) i = Accepting \<and> place (f (Suc n)) i = Accepted}
      \<le> (if r Accepting \<le> r (place (f 0) i) then 1 else 0)"
    by (intro card_drops [of N "\<lambda>n. if r Accepting \<le> r (place (f n) i) then 1 else 0"]) (use down in fastforce)+
  then have "card {n. n < N \<and> place (f n) i = Accepting \<and> place (f (Suc n)) i = Accepted} \<le> 1"
    by (rule le_trans) simp
  ultimately show ?thesis using r [of "place (f 0) i"] by simp
qed

text \<open>A thread that is cancelled while it waits for a connection.\<close>

definition cancelled_run :: "nat \<Rightarrow> pool_state" where
  "cancelled_run n = (if n = 0 then awake_stop else cleaned_up awake_stop 0 Ended)"

theorem killed_thread_stops_soon_witness:
  "card {n. n < 1 \<and> place (cancelled_run (Suc n)) 0 \<noteq> place (cancelled_run n) 0} \<le> 13 \<and>
   card {n. n < 1 \<and> place (cancelled_run n) 0 = Accepting \<and> place (cancelled_run (Suc n)) 0 = Accepted} \<le> 1"
proof (rule killed_thread_stops_soon)
  have "worker_step awake_stop (cleaned_up awake_stop 0 Ended)"
    by (rule cancelled_idle) (simp_all add: awake_stop_def idle_pool_def new_worker_def stands_def)
  then show "pool_run 1 cancelled_run"
    by (simp add: pool_run_def cancelled_run_def worker_moves awake_stop_def)
qed (simp_all add: cancelled_run_def awake_stop_def idle_pool_def)

end
