(* ===== verification/Response_Gaps.thy ===== *)
theory Response_Gaps
  imports Response_Properties
begin

text \<open>
  Inputs that src/response.c does not provide for: a file that is shorter than \<open>stat\<close> said, and a path
  without an extension in a \<open>POST\<close>.
\<close>

section \<open>Sequences that do not return\<close>

text \<open>A statement that returns hands on whatever the rest does, be it not to finish or to be undefined.\<close>

lemma bind_outcome: "wp m (\<lambda>a w'. f a E w' = out) E w \<Longrightarrow> bind m f E w = out"
  by (erule wpE) (simp add: bind_def)

lemma bind_Ret: "m E w = Ret (a, w') \<Longrightarrow> bind m f E w = f a E w'"
  and bind_Unfinished: "m E w = Unfinished \<Longrightarrow> bind m f E w = Unfinished"
  by (simp_all add: bind_def)

lemma bind_lift_Ret: "bind (lift (Ret a)) f E w = f a E w"
  by (simp add: bind_def lift_def)

text \<open>The loop asks the file for more than it has: it reads nothing, again and again.\<close>

lemma send_file_loop_hangs:
  assumes full: "full_sends E"
  shows "db_holds d s F R w \<Longrightarrow> 0 < unat (db_capacity d) \<Longrightarrow> length f < unat sz \<Longrightarrow>
    send_file_loop n fd (Some d) (Some f) sz E w = Unfinished"
proof (induction n arbitrary: d s R w f sz)
  case 0
  then have "0 < sz" by (simp add: word_less_nat_alt)
  then show ?case by (simp add: unfinished_def)
next
  case (Suc n)
  let ?k = "unat (db_capacity d) - length s"
  let ?sz = "sz - of_nat (length (take ?k f))"
  have pos: "0 < sz" using Suc.prems(3) by (simp add: word_less_nat_alt)
  have "length (take ?k f) < unat sz" using Suc.prems(3) by simp
  moreover then have small: "length (take ?k f) < 2 ^ 64" using unat_size_t_lt [of sz] by linarith
  ultimately have "unat ?sz = unat sz - length (take ?k f)"
    by (subst unat_sub) (simp_all add: word_le_nat_alt unat_of_nat_small)
  then have left: "length (drop ?k f) < unat ?sz" using Suc.prems(3) by (simp only: length_take length_drop) arith
  show ?case
    unfolding send_file_loop.simps if_P [OF pos]
  proof (rule bind_outcome, rule wp_append_file_chunked [OF Suc.prems(1)])
    fix d'
    assume d': "db_holds d' (s @ take ?k f) F R w" "db_capacity d' = db_capacity d"
    have cap: "0 < unat (db_capacity d')" using d'(2) Suc.prems(2) by simp
    have "bind (socket_send fd (dynamic_buffer_get_buffer (Some d')) (dynamic_buffer_get_size (Some d'))) (\<lambda>_.
        send_file_loop n fd (dynamic_buffer_clear (Some d')) (Some (drop ?k f)) ?sz) E w = Unfinished"
    proof (rule bind_outcome, rule wp_send_all [OF d'(1) full])
      fix r :: int and w' :: world
      assume "live w' = live w" "n_malloc w' = n_malloc w"
      then have "db_holds d' (s @ take ?k f) F (rest w') w'" by (rule db_holds_world [OF d'(1)])
      from db_holds_clear [OF this] show "send_file_loop n fd (dynamic_buffer_clear (Some d')) (Some (drop ?k f)) ?sz E w' = Unfinished"
        unfolding dynamic_buffer_clear_def option.map using cap left by (intro Suc.IH) simp_all
    qed
    then show "(case (of_nat (length (take ?k f)), Some d', Some (drop ?k f)) of (bytes_read, db, f) \<Rightarrow>
         if dynamic_buffer_is_full db
         then bind (socket_send fd (dynamic_buffer_get_buffer db) (dynamic_buffer_get_size db)) (\<lambda>_.
              send_file_loop n fd (dynamic_buffer_clear db) f (sz - bytes_read))
         else send_file_loop n fd db f (sz - bytes_read)) E w = Unfinished"
      using Suc.IH [OF d'(1) cap left] by simp
  qed
qed

section \<open>A file that is shorter than its size\<close>

lemma get_opened_hangs:
  assumes env: "server_ok E a" and full: "full_sends E" and h: "db_holds d [] F (rest w) w"
    and st: "stat_of E (n_calls w) (cstr fn) = Some (n, m)" "stat_of E (Suc (n_calls w)) (cstr fn) = Some (n', mtime)"
    and short: "int (length f) < n" "n < 2 ^ 63" and time: "gmtime mtime = Some t"
    and type: "no_nul type" "length type < 2 ^ 32"
    and header: "request_get_header r (Some ''If-None-Match'') = Ret hdr" "readable hdr"
    and etag: "make_etag mtime (path r) = Ret etag" "length etag < 2 ^ 32" and changed: "bytes hdr \<noteq> cstr etag"
    and arr: "NUL \<in> set (fresh_bytes E 0 40)"
  shows "get_opened fuel fd a r b fn (Some type) (Some d) f E w = Unfinished"
proof -
  let ?arr = "fresh_bytes E 0 40" and ?sz = "of_int n :: size_t"
  let ?w2 = "w\<lparr>n_calls := Suc (Suc (n_calls w))\<rparr>"
  have h2: "db_holds d [] F (rest ?w2) ?w2" by (rule db_holds_world [OF h]) simp_all
  have clen: "length (cstr etag) < 2 ^ 32" using etag(2) length_cstr [of etag] by simp
  have "?sz = of_nat (nat n)" using short(1) by simp
  then have sz: "unat ?sz = nat n" using short(2) by (simp only:) (rule unat_of_nat_small, simp)
  have "bind (file_headers (Some d) a (Some type) etag ?sz ?arr) (\<lambda>db. send_file_loop fuel fd db (Some f) ?sz) E ?w2 = Unfinished"
  proof (rule bind_outcome, rule wp_file_headers [OF env h2 type clen sz _ arr])
    fix d' w'
    assume h': "db_holds d' (file_text a type (cstr etag) (nat n) (cstr ?arr) (date_at E (n_calls ?w2))) F
      ((rest ?w2)\<lparr>n_calls := Suc (n_calls ?w2)\<rparr>) w'"
    have "0 < unat (db_capacity d')" using db_holds_capacity [OF h'] by (simp add: file_text_def common_text_def)
    then show "send_file_loop fuel fd (Some d') (Some f) ?sz E w' = Unfinished"
      using short sz by (intro send_file_loop_hangs [OF full h']) simp_all
  qed (use short in simp_all)
  then have rest: "bind (if bytes hdr = cstr etag then not_modified (Some d) a
      else bind (file_headers (Some d) a (Some type) etag ?sz ?arr) (\<lambda>db. send_file_loop fuel fd db (Some f) ?sz)) g E ?w2 = Unfinished"
    for g :: "DynamicBuffer option \<Rightarrow> int prog"
    using changed by (intro bind_Unfinished) simp
  have size: "get_file_size fn E w = Ret (?sz, w\<lparr>n_calls := Suc (n_calls w)\<rparr>)"
    "get_file_last_modified fn E (w\<lparr>n_calls := Suc (n_calls w)\<rparr>) = Ret (mtime, ?w2)"
    using st by (simp_all add: get_file_size_def get_file_last_modified_def bind_def sys_stat_def return_def)
  have array: "asks (strftime_array DATE_SIZE (''Last modified: '' @ http_date t @ CRLF)) E ?w2 = Ret (?arr, ?w2)"
    using last_modified_array [OF time, of E] by (simp add: asks_def)
  have tm: "deref_gmtime mtime = Ret t" using time by (simp add: deref_gmtime_def)
  show ?thesis
    unfolding get_opened_def
    by (simp only: bind_Ret [where m = "get_file_size fn" and E = E and w = w, OF size(1)]
      bind_Ret [where m = "get_file_last_modified fn" and E = E, OF size(2)] tm header(1) etag(1)
      string_is_equal_to_eq [OF header(2)] bind_lift_Ret
      bind_Ret [where m = "asks (strftime_array DATE_SIZE (''Last modified: '' @ http_date t @ CRLF))" and E = E and w = ?w2, OF array] rest)
qed

text \<open>The requested file while it is being cut: \<open>stat\<close> gives the old size, the file has fewer bytes.\<close>

definition shrunk_file :: "env \<Rightarrow> nat \<Rightarrow> string \<Rightarrow> string \<Rightarrow> int \<Rightarrow> bool" where
  "shrunk_file E k name f mtime \<longleftrightarrow> file_at E name = Some f \<and> gmtime mtime \<noteq> None \<and>
     (\<exists>n m. stat_of E k name = Some (n, m) \<and> int (length f) < n \<and> n < 2 ^ 63) \<and> (\<exists>n'. stat_of E (Suc k) name = Some (n', mtime))"

text \<open>How \<open>response_get\<close> comes to the opened file.\<close>

lemma get_file_outcome:
  assumes alloc: "alloc_ok E" and heap: "heap_ok w" and type: "map_of content_types (cstr e) = Some type"
    and contents: "file_at E (cstr fn) = Some f"
    and opened: "\<And>d w2. db_holds d [] (live w) (rest w2) w2 \<Longrightarrow> n_calls w2 = n_calls w \<Longrightarrow>
      get_opened fuel fd a r b fn (Some type) (Some d) f E w2 = out"
  shows "get_file fuel fd a r b fn (Some e) E w = out"
  unfolding get_file_def
proof (rule bind_outcome, rule wp_dynamic_buffer_ini [OF _ _ heap refl])
  fix d w2
  assume h: "db_holds d [] (live w) (rest w) w2"
  have debug: "bind (print_debug s) g E w2 = g () E (w2\<lparr>log_out := logged LOG_DEBUG False s E w2\<rparr>)" for s and g :: "unit \<Rightarrow> int prog"
    by (rule bind_outcome) (simp add: wp_print)
  have "get_opened fuel fd a r b fn (Some type) (Some d) f E (w2\<lparr>log_out := l\<rparr>) = out" for l
    using db_holds_sel [OF h] by (intro opened db_holds_world [OF h]) simp_all
  then show "(case Some d of
       None \<Rightarrow>
         bind (print_error ''failed to allocate memory for dynamic buffer'') (\<lambda>_.
         bind (response_internal_server_error fuel fd a) (\<lambda>_.
         bind (free b) (\<lambda>_.
         return ERROR)))
     | Some db \<Rightarrow>
         bind (lift (get_content_type (Some e))) (\<lambda>content_type.
         if content_type = None
         then bind (print_error ''unrecognized content type for %s'') (\<lambda>_.
              bind (response_not_found fuel fd a) (\<lambda>_.
              bind (free b) (\<lambda>_.
              bind (dynamic_buffer_destroy (Some db)) (\<lambda>_.
              return ERROR))))
         else
           bind (print_debug ''%s requested (type %s)'') (\<lambda>_.
           bind (asks (\<lambda>E. file_at E (cstr fn))) (\<lambda>f. case f of
             None \<Rightarrow>
               bind (print_error ''can't open %s: %s'') (\<lambda>_.
               bind (response_not_found fuel fd a) (\<lambda>_.
               bind (free b) (\<lambda>_.
               bind (dynamic_buffer_destroy (Some db)) (\<lambda>_.
               return ERROR))))
           | Some f \<Rightarrow>
               get_opened fuel fd a r b fn content_type (Some db) f)))) E w2 = out"
    using contents by (simp add: get_content_type_eq type bind_lift_Ret debug) (simp add: bind_def asks_def)
qed (use alloc in \<open>simp_all add: DEFAULT_INITIAL_CAPACITY_def\<close>)

lemma response_get_outcome:
  assumes alloc: "alloc_ok E" and conf: "config_ok a" and path: "readable (path r)" "str_data (path r) \<noteq> None"
    and ext: "extension_of (file_name a (path r)) = Some x" "x \<noteq> ''.py''" "x \<noteq> ''.php''"
    and served: "\<And>fn e. cstr fn = file_name a (path r) \<Longrightarrow> cstr e = x \<Longrightarrow> get_file fuel fd a r (n_malloc w) fn (Some e) E
      (w\<lparr>n_malloc := Suc (n_malloc w), live := insert (n_malloc w) (live w)\<rparr>) = out"
  shows "response_get fuel fd a r E w = out"
  unfolding response_get_def
proof (rule bind_outcome, rule wp_get_file_name [OF alloc conf path])
  fix fn
  assume fn: "cstr fn = file_name a (path r)"
  obtain e where e: "find_extension fn = Some e" "cstr e = x"
    using find_extension_eq [of fn] ext(1) unfolding fn by auto
  show "(case Some (n_malloc w, fn) of
       None \<Rightarrow> bind (response_internal_server_error fuel fd a) (\<lambda>_. return ERROR)
     | Some (filename_block, filename) \<Rightarrow>
         let extension = find_extension filename in
         if extension = None
         then bind (print_info ''don't know what to do with directory %s'') (\<lambda>_.
              bind (response_not_implemented fuel fd a) (\<lambda>_.
              bind (free filename_block) (\<lambda>_.
              return ERROR)))
         else
           bind (lift (strcmp_eq extension (Some ''.py''))) (\<lambda>py.
           bind (lift (strcmp_eq extension (Some ''.php''))) (\<lambda>php.
           if py \<or> php
           then bind (response_cgi fuel fd a (url_args r) filename extension) (\<lambda>cgi_ret.
                bind (free filename_block) (\<lambda>_.
                return cgi_ret))
           else get_file fuel fd a r filename_block filename extension))) E
      (w\<lparr>n_malloc := Suc (n_malloc w), live := insert (n_malloc w) (live w)\<rparr>) = out"
    using served [OF fn e(2)] e ext(2,3) by (simp add: strcmp_eq_def bind_lift_Ret Let_def)
qed

section \<open>Properties\<close>

text \<open>C22: when a file has become shorter than its size was, between \<open>stat\<close> and \<open>fread\<close>, \<open>response_get\<close> never returns,
  however many rounds its loop is given: the loop counts down the size, and a read at the end of the file
  takes nothing from it. The worker that serves the request is lost.\<close>

theorem shrunk_file_never_ends:
  assumes "server_ok E a" and "config_ok a" and "full_sends E" and "heap_ok w"
    and "readable (path r)" and "str_data (path r) \<noteq> None" and "no_nul (bytes (path r))"
    and "extension_of (file_name a (path r)) = Some x" and "map_of content_types x = Some type"
    and "shrunk_file E (n_calls w) (file_name a (path r)) f mtime"
    and "request_get_header r (Some ''If-None-Match'') = Ret hdr" and "readable hdr"
    and "bytes hdr \<noteq> take 99 (dec_int mtime @ bytes (path r))" and "NUL \<in> set (fresh_bytes E 0 40)"
  shows "response_get fuel fd a r E w = Unfinished"
proof -
  have alloc: "alloc_ok E" using assms(1) by (simp add: server_ok_def)
  obtain etag where etag: "make_etag mtime (path r) = Ret etag" "length etag < 2 ^ 32"
    and tag: "cstr etag = take 99 (dec_int mtime @ bytes (path r))"
    using make_etag_eq [OF assms(5-7)] by blast
  obtain n m n' t where st: "file_at E (file_name a (path r)) = Some f" "gmtime mtime = Some t"
    "stat_of E (n_calls w) (file_name a (path r)) = Some (n, m)" "int (length f) < n" "n < 2 ^ 63"
    "stat_of E (Suc (n_calls w)) (file_name a (path r)) = Some (n', mtime)"
    using assms(10) unfolding shrunk_file_def by blast
  have type: "no_nul type" "length type < 2 ^ 32" "x \<noteq> ''.py''" "x \<noteq> ''.php''"
    using types_no_nul [OF assms(9)] by simp_all
  show ?thesis
  proof (rule response_get_outcome [OF alloc assms(2,5,6,8) type(3,4)], rule get_file_outcome [OF alloc])
    fix fn e d and w2 :: world
    assume "cstr fn = file_name a (path r)" and "db_holds d [] (live (w\<lparr>n_malloc := Suc (n_malloc w), live := insert (n_malloc w) (live w)\<rparr>)) (rest w2) w2"
      and "n_calls w2 = n_calls (w\<lparr>n_malloc := Suc (n_malloc w), live := insert (n_malloc w) (live w)\<rparr>)"
    with st assms(13) tag show "get_opened fuel fd a r (n_malloc w) fn (Some type) (Some d) f E w2 = Unfinished"
      by (intro get_opened_hangs [OF assms(1,3) _ _ _ st(4,5,2) type(1,2) assms(11,12) etag _ assms(14)]) simp_all
  qed (use assms(4,9) st(1) in \<open>auto simp: heap_ok_def less_Suc_eq\<close>)
qed

definition shrunk_env :: env where
  "shrunk_env = demo_env\<lparr>stat_of := \<lambda>k f. Some (9, 0)\<rparr>"

theorem shrunk_file_never_ends_witness: "\<forall>fuel. response_get fuel 7 demo_config demo_get shrunk_env demo_world = Unfinished"
proof
  fix fuel
  have env: "server_ok shrunk_env demo_config" "full_sends shrunk_env" "fresh_bytes shrunk_env 0 40 = fresh_bytes demo_env 0 40"
    using demo_server_ok demo_full_sends
    by (simp_all add: shrunk_env_def server_ok_def alloc_ok_def clock_ok_def full_sends_def fresh_bytes_def)
  have path: "no_nul (bytes (path demo_get))" using demo_get_path(2) by simp
  have ext: "extension_of (file_name demo_config (path demo_get)) = Some ''.txt''"
    using extension_of_split [of "''txt''" "''/w/a''"] by (simp add: demo_file_name)
  have type: "map_of content_types ''.txt'' = Some ''text/plain''" by (simp add: content_types_def)
  have shrunk: "shrunk_file shrunk_env (n_calls demo_world) (file_name demo_config (path demo_get)) ''hi'' 0"
    by (simp add: shrunk_file_def shrunk_env_def demo_gmtime)
  have hdr: "readable \<lparr>str_data = None, str_size = 0\<rparr>" "bytes \<lparr>str_data = None, str_size = 0\<rparr> = []"
    by (simp_all add: readable_def bytes_def)
  have tag: "take 99 (dec_int 0 @ bytes (path demo_get)) \<noteq> []" by (simp add: demo_get_path(2))
  show "response_get fuel 7 demo_config demo_get shrunk_env demo_world = Unfinished"
    by (rule shrunk_file_never_ends [OF env(1) demo_config_ok env(2) demo_heap_ok demo_get_path(1,3) path ext type shrunk
      demo_no_header hdr(1)]) (use tag hdr(2) env(3) demo_junk(1) in simp_all)
qed

text \<open>C32: a \<open>POST\<close> whose file name has no dot gives the null pointer of \<open>_find_extension\<close> to \<open>strcmp\<close>, as soon as a file of
  that name exists; \<open>response_get\<close> tests for it.\<close>

theorem post_without_extension:
  assumes "alloc_ok E" and "heap_ok w" and "config_ok a" and "readable (path r)" and "str_data (path r) \<noteq> None"
    and "CHR ''.'' \<notin> set (file_name a (path r))" and "access_ok E (file_name a (path r))"
  shows "response_post fuel fd a r E w = Undef Null_Deref"
  unfolding response_post_def
proof (rule bind_outcome, rule wp_get_file_name [OF assms(1,3-5)])
  let ?w1 = "w\<lparr>n_malloc := Suc (n_malloc w), live := insert (n_malloc w) (live w)\<rparr>"
  have heap1: "heap_ok ?w1" using assms(2) by (auto simp: heap_ok_def less_Suc_eq)
  fix fn
  assume fn: "cstr fn = file_name a (path r)"
  then have none: "find_extension fn = None" using find_extension_eq [of fn] assms(6) by (auto simp: extension_of_def)
  have "response_cgi fuel fd a (body r) fn None E ?w1 = Undef Null_Deref"
    unfolding response_cgi_def
  proof (rule bind_outcome, rule wp_dynamic_buffer_ini [OF _ _ heap1 refl])
  qed (use assms(1,7) fn in \<open>simp_all add: DEFAULT_INITIAL_CAPACITY_def alloc_ok_def bind_def asks_def lift_def strcmp_eq_def\<close>)
  then show "(case Some (n_malloc w, fn) of
       None \<Rightarrow> bind (response_internal_server_error fuel fd a) (\<lambda>_. return ERROR)
     | Some (filename_block, filename) \<Rightarrow>
         let extension = find_extension filename in
         bind (response_cgi fuel fd a (body r) filename extension) (\<lambda>cgi_ret.
         bind (free filename_block) (\<lambda>_.
         return cgi_ret))) E ?w1 = Undef Null_Deref"
    by (simp add: none bind_def)
qed

theorem post_without_extension_witness:
  "response_post 40 7 demo_config (demo_get\<lparr>path := \<lparr>str_data = Some ''/run HTTP/1.1'', str_size = 4\<rparr>\<rparr>) demo_env demo_world
     = Undef Null_Deref"
  by (rule post_without_extension [OF demo_alloc_ok demo_heap_ok demo_config_ok])
    (simp_all add: readable_def bytes_def file_name_def demo_config_def)

section \<open>Scripts on macOS\<close>

definition macos_body :: string where
  "macos_body = ''<h1>Scripts not implemented on macOS</h1>''"

definition macos_text :: "config \<Rightarrow> string \<Rightarrow> string" where
  "macos_text a date = common_text a 501 ''Not Implemented'' date @
     ''Content-Type: text/html; charset=UTF-8'' @ CRLF @ ''Content-Length: '' @ dec (length macos_body) @
     CRLF @ ''Connection: keep-alive'' @ CRLF @ CRLF @ macos_body"

lemma macos_length: "length macos_body = 41" "dec 41 = ''41''"
  by (simp add: macos_body_def) (simp add: dec.simps [of 41] dec.simps [of 4] digit_def char_of_def bit_Suc_0_iff)

text \<open>On macOS a request for a script is answered with a page whose announced length is that of its body, the
  result is \<open>OK\<close> even when nothing could be sent, and the two blocks of the buffer are never given back.\<close>

theorem scripts_refused_on_macos:
  assumes "server_ok E a" and "heap_ok w"
  shows "\<exists>w'. response_cgi_macos fuel fd a args fn e E w = Ret (OK, w') \<and>
    sent_on fd (trace w') = sent_on fd (trace w) @ (case send_ret E (n_send w) of
      None \<Rightarrow> [] | Some n \<Rightarrow> take n (macos_text a (date_at E (n_calls w)))) \<and>
    leaks_buffer (live w) (live w')"
proof -
  let ?date = "date_at E (n_calls w)"
  let ?common = "common_text a 501 ''Not Implemented'' ?date"
  let ?Q = "\<lambda>r w'. r = OK \<and> sent_on fd (trace w') = sent_on fd (trace w) @ (case send_ret E (n_send w) of
      None \<Rightarrow> [] | Some n \<Rightarrow> take n (macos_text a ?date)) \<and> leaks_buffer (live w) (live w')"
  let ?ps = "[Text (Some (''Content-Type: text/html; charset=UTF-8'' @ CRLF)), Text (Some (''Content-Length: 41'' @ CRLF)),
      Text (Some (''Connection: keep-alive'' @ CRLF @ CRLF)), Text (Some ''<h1>Scripts not implemented on macOS</h1>'')]"
  have alloc: "alloc_ok E" using assms(1) by (simp add: server_ok_def)
  have "wp (response_cgi_macos fuel fd a args fn e) ?Q E w"
    unfolding response_cgi_macos_def wp_bind
  proof (rule wp_dynamic_buffer_ini [OF _ _ assms(2) refl])
    fix d0 w0
    assume h0: "db_holds d0 [] (live w) (rest w) w0"
    have calls: "n_calls w0 = n_calls w" using db_holds_sel(5) [OF h0] by simp
    have "wp (add_common_headers (Some d0) a 501 ''Not Implemented'') (\<lambda>db. wp (append_all db ?ps) (\<lambda>db.
        wp (socket_send fd (dynamic_buffer_get_buffer db) (dynamic_buffer_get_size db)) (\<lambda>_. ?Q OK) E) E) E w0"
    proof (rule wp_add_common_headers [OF assms(1) h0])
      fix d1 w1
      assume "db_holds d1 ([] @ common_text a (nat 501) ''Not Implemented'' (date_at E (n_calls w0))) (live w)
        ((rest w)\<lparr>n_calls := Suc (n_calls w0)\<rparr>) w1"
      then have h1: "db_holds d1 ?common (live w) ((rest w)\<lparr>n_calls := Suc (n_calls w)\<rparr>) w1" by (simp add: calls)
      have "length ?common < 2 ^ 34" by (rule length_common_text [OF assms(1)]) simp_all
      then have len: "length ?common + weight ?ps < 2 ^ 64" by simp
      show "wp (append_all (Some d1) ?ps) (\<lambda>db.
        wp (socket_send fd (dynamic_buffer_get_buffer db) (dynamic_buffer_get_size db)) (\<lambda>_. ?Q OK) E) E w1"
      proof (rule wp_append_all [OF alloc h1 len])
        fix d w2
        assume "db_holds d (?common @ render ?ps) (live w) ((rest w)\<lparr>n_calls := Suc (n_calls w)\<rparr>) w2"
        moreover have "?common @ render ?ps = macos_text a ?date" by (simp only: macos_text_def macos_length) (simp add: macos_body_def)
        ultimately have h: "db_holds d (macos_text a ?date) (live w) ((rest w)\<lparr>n_calls := Suc (n_calls w)\<rparr>) w2" by simp
        have "leaks_buffer (live w) (live w2)" using h by (auto simp: db_holds_def leaks_buffer_def)
        then show "wp (socket_send fd (dynamic_buffer_get_buffer (Some d)) (dynamic_buffer_get_size (Some d))) (\<lambda>_. ?Q OK) E w2"
          using db_holds_sel [OF h] by (intro wp_send_buffer [OF h]) simp_all
      qed simp
    qed simp_all
    then show "wp (case Some d0 of
       None \<Rightarrow>
         bind (print_error ''failed to allocate memory for dynamic buffer'') (\<lambda>_.
         bind (response_internal_server_error fuel fd a) (\<lambda>_.
         return ERROR))
     | Some response \<Rightarrow>
         bind (add_common_headers (Some response) a 501 ''Not Implemented'') (\<lambda>response.
         bind (append_all response ?ps) (\<lambda>response.
         bind (socket_send fd (dynamic_buffer_get_buffer response) (dynamic_buffer_get_size response)) (\<lambda>_.
         return OK)))) ?Q E w0"
      by (simp only: option.case wp_bind wp_bind_fun wp_return wp_return_fun)
  qed (use alloc in \<open>simp_all add: DEFAULT_INITIAL_CAPACITY_def\<close>)
  then show ?thesis by (elim wpE) auto
qed

theorem scripts_refused_on_macos_witness:
  "\<exists>w'. response_cgi_macos 40 7 demo_config \<lparr>str_data = None, str_size = 0\<rparr> ''/w/a.py'' (Some ''.py'') demo_env demo_world
      = Ret (OK, w') \<and> leaks_buffer {} (live w')"
  using scripts_refused_on_macos [OF demo_server_ok demo_heap_ok, of 40 7 "\<lparr>str_data = None, str_size = 0\<rparr>" "''/w/a.py''" "Some ''.py''"]
  by auto

end
