(* ===== verification/Worker_Loop.thy ===== *)
theory Worker_Loop
  imports Pool_Properties
begin

text \<open>
  A worker thread from its start, \<open>_worker_function\<close> of src/thread_pool.c, while no other thread changes the pool: it
  installs the handler of the soft kill, and serves one connection after the other. The connections the kernel hands to
  this worker, with what each will deliver, are an argument; where the list ends, the worker waits in \<open>accept\<close>.
\<close>

section \<open>The code\<close>

text \<open>How the thread function ends: by \<open>return NULL\<close>, or by \<open>pthread_exit\<close>, which runs the cleanup handler.\<close>

datatype worker_end = Returned_NULL | Exited

text \<open>The functions of <pthread.h> return 0, or an error number, which is positive.\<close>

definition EINVAL :: int where "EINVAL = 22"

definition pthread_call :: "int prog" where
  "pthread_call = bind sys_call (\<lambda>ok. return (if ok then 0 else EINVAL))"

text \<open>A connection: the family of the peer's address, its text, and what the peer sends.\<close>

type_synonym arrival = "sa_family \<times> string \<times> rd list"

text \<open>\<open>n_active_threads++\<close> and \<open>n_active_threads--\<close>.\<close>

definition add_active :: "int \<Rightarrow> ThreadPool \<Rightarrow> ThreadPool" where
  "add_active k pool = pool\<lparr>n_active_threads := n_active_threads pool + k\<rparr>"

text \<open>From the accepted connection to the end of the round, and the round; \<open>None\<close> stands for the next one.\<close>

definition worker_serve ::
    "nat \<Rightarrow> nat \<Rightarrow> int \<Rightarrow> ThreadPool \<Rightarrow> (worker_end option \<times> ThreadPool) prog" where
  "worker_serve rounds fuel client_fd pool =
     bind pthread_call (\<lambda>blocked.
     if blocked < 0
     then bind (print_error ''failed tp block signal in thread'') (\<lambda>_.
          bind (cleanup_handler client_fd) (\<lambda>_.
          return (Some Exited, pool)))
     else bind pthread_call (\<lambda>locked.
     if locked \<noteq> 0
     then bind (print_error ''failed to lock mutex'') (\<lambda>_. return (Some Returned_NULL, pool))
     else let pool = add_active 1 pool in
     bind pthread_call (\<lambda>unlocked.
     if unlocked \<noteq> 0
     then bind (print_critical ''failed to unlock mutex'') (\<lambda>_. return (Some Returned_NULL, pool))
     else
     bind (serve_client rounds fuel client_fd (pool_server_attrs pool)) (\<lambda>_.
     bind pthread_call (\<lambda>_.
     let pool = add_active (-1) pool in
     bind pthread_call (\<lambda>_.
     bind pthread_call (\<lambda>unblocked.
     if unblocked < 0
     then bind (print_error ''failed to unblock signal in thread'') (\<lambda>_. return (Some Returned_NULL, pool))
     else return (None, pool))))))))"

definition worker_round ::
    "nat \<Rightarrow> nat \<Rightarrow> arrival \<Rightarrow> ThreadPool \<Rightarrow> (worker_end option \<times> ThreadPool) prog" where
  "worker_round rounds fuel arrival pool = (case arrival of (sa_family, ntop, events) \<Rightarrow>
     bind (socket_accept sa_family ntop (pool_socket_fd pool)) (\<lambda>client_fd.
     if client_fd = ERROR then return (None, pool)
     else bind (modify (set_pending client_fd events)) (\<lambda>_.
          worker_serve rounds fuel client_fd pool)))"

fun worker_loop ::
    "nat \<Rightarrow> nat \<Rightarrow> arrival list \<Rightarrow> ThreadPool \<Rightarrow> (worker_end option \<times> ThreadPool) prog" where
  "worker_loop rounds fuel [] pool = return (None, pool)"
| "worker_loop rounds fuel (c # cs) pool =
     bind (worker_round rounds fuel c pool) (\<lambda>(e, pool). case e of
       Some e \<Rightarrow> return (Some e, pool)
     | None \<Rightarrow> worker_loop rounds fuel cs pool)"

definition worker_function ::
    "nat \<Rightarrow> nat \<Rightarrow> arrival list \<Rightarrow> ThreadPool \<Rightarrow> (worker_end option \<times> ThreadPool) prog" where
  "worker_function rounds fuel arrivals pool =
     bind sys_call (\<lambda>installed.
     if \<not> installed
     then bind (print_error ''Error creating signal handler'') (\<lambda>_. return (Some Returned_NULL, pool))
     else worker_loop rounds fuel arrivals pool)"

section \<open>Facts\<close>

lemma wp_pthread_call [wp_simps]:
  "wp pthread_call Q E w = Q (if call_ok E (n_calls w) then 0 else EINVAL) (w\<lparr>n_calls := Suc (n_calls w)\<rparr>)"
  by (simp add: pthread_call_def wp_simps)

lemma wp_pthread_call_fun:
  "wp pthread_call Q E = (\<lambda>w. Q (if call_ok E (n_calls w) then 0 else EINVAL) (w\<lparr>n_calls := Suc (n_calls w)\<rparr>))"
  by (simp add: fun_eq_iff wp_pthread_call)

lemma add_active_sel [simp]:
  "pool_server_attrs (add_active k pool) = pool_server_attrs pool" "pool_socket_fd (add_active k pool) = pool_socket_fd pool"
  "add_active (-1) (add_active 1 pool) = pool"
  by (simp_all add: add_active_def)

text \<open>What one round leaves, for the connection with the descriptor \<open>fd\<close>, and what all of them leave.\<close>

definition answered :: "config \<Rightarrow> rd list \<Rightarrow> int \<Rightarrow> world \<Rightarrow> world \<Rightarrow> bool" where
  "answered a events fd w w' \<longleftrightarrow> fd \<notin> open_fds w' \<and> (\<exists>ss. list_all (an_answer a) ss \<and> length ss \<le> Suc (reads_left events) \<and>
     sent_on fd (trace w') = sent_on fd (trace w) @ concat ss)"

definition untouched :: "int set \<Rightarrow> world \<Rightarrow> world \<Rightarrow> bool" where
  "untouched fds w w' \<longleftrightarrow> heap_ok w' \<and> next_fd w \<le> next_fd w' \<and>
     (\<forall>fd. fd \<notin> fds \<longrightarrow> sent_on fd (trace w') = sent_on fd (trace w)) \<and>
     (\<forall>fd < next_fd w. fd \<notin> fds \<longrightarrow> (fd \<in> open_fds w' \<longleftrightarrow> fd \<in> open_fds w))"

definition arrival_ok :: "nat \<Rightarrow> nat \<Rightarrow> arrival \<Rightarrow> bool" where
  "arrival_ok rounds fuel c \<longleftrightarrow> Eof \<in> set (snd (snd c)) \<and> reads_left (snd (snd c)) < fuel \<and> reads_left (snd (snd c)) < rounds"

lemma wp_socket_accept:
  assumes "0 \<le> socket_fd" and "calls_ok E" and "alloc_ok E" and "heap_ok w"
    and Q: "\<And>w'. heap_ok w' \<Longrightarrow> trace w' = trace w \<Longrightarrow> next_fd w' = next_fd w + 1 \<Longrightarrow>
      open_fds w' = insert (next_fd w) (open_fds w) \<Longrightarrow> Q (next_fd w) w'"
  shows "wp (socket_accept fam ntop socket_fd) Q E w"
  using assms(1-4)
  by (simp add: socket_accept_def ip_to_string_def wp_simps calls_ok_def alloc_ok_def)
    (rule Q, auto simp: heap_ok_def less_Suc_eq)

lemma wp_worker_round:
  assumes ok: "machine_ok E (pool_server_attrs pool) fuel" "calls_ok E" "0 \<le> pool_socket_fd pool"
    and heap: "heap_ok w" and fd: "0 \<le> next_fd w" and c: "arrival_ok rounds fuel c"
    and Q: "\<And>w'. untouched {next_fd w} w w' \<Longrightarrow> next_fd w < next_fd w' \<Longrightarrow>
      answered (pool_server_attrs pool) (snd (snd c)) (next_fd w) w w' \<Longrightarrow> Q (None, pool) w'"
  shows "wp (worker_round rounds fuel c pool) Q E w"
proof -
  obtain fam ntop events where c': "c = (fam, ntop, events)" by (cases c)
  have alloc: "alloc_ok E" using ok(1) by (simp add: machine_ok_def server_ok_def)
  have call: "call_ok E k" for k using ok(2) by (simp add: calls_ok_def)
  show ?thesis
    unfolding worker_round_def c' prod.case wp_bind
  proof (rule wp_socket_accept [OF ok(3,2) alloc heap])
    fix w1
    assume w1: "heap_ok w1" "trace w1 = trace w" "next_fd w1 = next_fd w + 1" "open_fds w1 = insert (next_fd w) (open_fds w)"
    let ?fd = "next_fd w" and ?a = "pool_server_attrs pool"
    let ?w2 = "(set_pending ?fd events w1)\<lparr>n_calls := Suc (Suc (Suc (n_calls w1)))\<rparr>"
    have "wp (serve_client rounds fuel ?fd ?a) (\<lambda>_ w'. Q (None, pool) (w'\<lparr>n_calls := Suc (Suc (Suc (n_calls w')))\<rparr>)) E ?w2"
    proof (rule wp_serve_client [OF ok(1)])
      show "heap_ok ?w2" using w1(1) by (simp add: heap_ok_def)
      show "?fd < next_fd ?w2" using w1(3) by simp
      show "Eof \<in> set (pending ?w2 ?fd)" "reads_left (pending ?w2 ?fd) < fuel" "reads_left (pending ?w2 ?fd) < rounds"
        using c by (simp_all add: arrival_ok_def c')
      fix w3
      assume con: "conversation ?a ?fd ?w2 w3"
      let ?w4 = "w3\<lparr>open_fds := open_fds w3 - {?fd}, trace := trace w3 @ [Closed ?fd]\<rparr>"
      have "untouched {?fd} w (?w4\<lparr>n_calls := n\<rparr>)" for n
        using con w1 unfolding untouched_def conversation_def by (auto simp: heap_ok_def)
      moreover have "?fd < next_fd (?w4\<lparr>n_calls := n\<rparr>)" for n using con w1(3) by (simp add: conversation_def)
      moreover have "answered ?a (snd (snd c)) ?fd w (?w4\<lparr>n_calls := n\<rparr>)" for n
        using con w1(2) unfolding answered_def conversation_def by (auto simp: c')
      ultimately show "Q (None, pool) (?w4\<lparr>n_calls := Suc (Suc (Suc (n_calls ?w4)))\<rparr>)" by (rule Q)
    qed
    then show "wp (if ?fd = ERROR then return (None, pool)
        else bind (modify (set_pending ?fd events)) (\<lambda>_. worker_serve rounds fuel ?fd pool)) Q E w1"
      using fd by (simp add: worker_serve_def wp_simps call wp_pthread_call_fun wp_bind_fun wp_return_fun ERROR_def)
  qed
qed

lemma untouched_trans:
  assumes "untouched A w w1" and "untouched B w1 w'" and "next_fd w \<le> next_fd w1"
  shows "untouched (A \<union> B) w w'"
  using assms unfolding untouched_def by auto

lemma answered_later:
  assumes "answered a es fd w w1" and "untouched B w1 w'" and "fd \<notin> B" and "fd < next_fd w1"
  shows "answered a es fd w w'"
  using assms unfolding answered_def untouched_def by auto

lemma answered_earlier:
  assumes "answered a es fd w1 w'" and "untouched A w w1" and "fd \<notin> A"
  shows "answered a es fd w w'"
  using assms unfolding answered_def untouched_def by auto

text \<open>The descriptors of the connections, in the order of the rounds.\<close>

definition all_answered :: "config \<Rightarrow> arrival list \<Rightarrow> int list \<Rightarrow> world \<Rightarrow> world \<Rightarrow> bool" where
  "all_answered a cs fds w w' \<longleftrightarrow> distinct fds \<and> set fds \<subseteq> {next_fd w ..< next_fd w'} \<and>
     list_all2 (\<lambda>c fd. answered a (snd (snd c)) fd w w') cs fds \<and> untouched (set fds) w w'"

lemma all_answered_Cons:
  assumes first: "untouched {next_fd w} w w1" "next_fd w < next_fd w1" "answered a (snd (snd c)) (next_fd w) w w1"
    and more: "all_answered a cs fds w1 w'"
  shows "all_answered a (c # cs) (next_fd w # fds) w w'"
proof -
  have fds: "distinct fds" "set fds \<subseteq> {next_fd w1 ..< next_fd w'}" "untouched (set fds) w1 w'"
    using more by (simp_all add: all_answered_def)
  then have new: "next_fd w \<notin> set fds" using first(2) by auto
  have "next_fd w \<noteq> fd" if "fd \<in> set fds" for fd using new that by blast
  then have rest: "list_all2 (\<lambda>c fd. answered a (snd (snd c)) fd w w') cs fds"
    using more answered_earlier [OF _ first(1)] unfolding all_answered_def list_all2_conv_all_nth
    by (metis nth_mem singletonD)
  have "untouched ({next_fd w} \<union> set fds) w w'"
    by (rule untouched_trans [OF first(1) fds(3)]) (use first(2) in simp)
  moreover have "answered a (snd (snd c)) (next_fd w) w w'"
    by (rule answered_later [OF first(3) fds(3) new first(2)])
  moreover have "next_fd w1 \<le> next_fd w'" using fds(3) by (simp add: untouched_def)
  ultimately show ?thesis
    using fds new rest first(2) by (auto simp: all_answered_def)
qed

lemma wp_worker_loop:
  assumes ok: "machine_ok E (pool_server_attrs pool) fuel" "calls_ok E" "0 \<le> pool_socket_fd pool"
  shows "heap_ok w \<Longrightarrow> 0 \<le> next_fd w \<Longrightarrow> list_all (arrival_ok rounds fuel) cs \<Longrightarrow>
    (\<And>fds w'. all_answered (pool_server_attrs pool) cs fds w w' \<Longrightarrow> Q (None, pool) w') \<Longrightarrow>
    wp (worker_loop rounds fuel cs pool) Q E w"
proof (induction cs arbitrary: w)
  case Nil
  have "all_answered (pool_server_attrs pool) [] [] w w"
    using Nil.prems(1) by (simp add: all_answered_def untouched_def)
  then show ?case by (simp add: wp_return Nil.prems(4))
next
  case (Cons c cs)
  show ?case
    unfolding worker_loop.simps wp_bind
  proof (rule wp_worker_round [OF ok Cons.prems(1,2)])
    show "arrival_ok rounds fuel c" using Cons.prems(3) by simp
    fix w1
    assume first: "untouched {next_fd w} w w1" "next_fd w < next_fd w1"
      "answered (pool_server_attrs pool) (snd (snd c)) (next_fd w) w w1"
    have "wp (worker_loop rounds fuel cs pool) Q E w1"
    proof (rule Cons.IH)
      show "heap_ok w1" "0 \<le> next_fd w1" "list_all (arrival_ok rounds fuel) cs"
        using first(1,2) Cons.prems(2,3) by (simp_all add: untouched_def)
      fix fds w'
      assume "all_answered (pool_server_attrs pool) cs fds w1 w'"
      from all_answered_Cons [OF first this] show "Q (None, pool) w'" by (rule Cons.prems(4))
    qed
    then show "wp (case (None, pool) of (e, pool) \<Rightarrow> case e of None \<Rightarrow> worker_loop rounds fuel cs pool
        | Some e \<Rightarrow> return (Some e, pool)) Q E w1" by simp
  qed
qed

lemma worker_function_result:
  assumes "machine_ok E (pool_server_attrs pool) fuel" and "calls_ok E" and "0 \<le> pool_socket_fd pool"
    and "heap_ok w" and "0 \<le> next_fd w" and "list_all (arrival_ok rounds fuel) cs"
  obtains fds w' where "worker_function rounds fuel cs pool E w = Ret ((None, pool), w')"
    and "all_answered (pool_server_attrs pool) cs fds w w'"
proof -
  let ?w = "w\<lparr>n_calls := Suc (n_calls w)\<rparr>"
  have "call_ok E (n_calls w)" using assms(2) by (simp add: calls_ok_def)
  moreover have "wp (worker_loop rounds fuel cs pool)
      (\<lambda>r w'. r = (None, pool) \<and> (\<exists>fds. all_answered (pool_server_attrs pool) cs fds w w')) E ?w"
  proof (rule wp_worker_loop [OF assms(1-3)])
    show "heap_ok ?w" "0 \<le> next_fd ?w" using assms(4,5) by (simp_all add: heap_ok_def)
  qed (use assms(6) in \<open>auto simp: all_answered_def answered_def untouched_def\<close>)
  ultimately have "wp (worker_function rounds fuel cs pool)
      (\<lambda>r w'. r = (None, pool) \<and> (\<exists>fds. all_answered (pool_server_attrs pool) cs fds w w')) E w"
    by (simp add: worker_function_def wp_simps)
  then show thesis by (elim wpE) (auto intro: that)
qed

section \<open>Properties\<close>



text \<open>When the mutex cannot be locked or unlocked before a client is served, the thread returns: the
  connection it has accepted stays open although nobody will ever answer it or close it, and in the second case
  the thread stays counted as an active one.\<close>

theorem failing_mutex_abandons_the_client:
  assumes "\<not> (call_ok E (Suc (n_calls w)) \<and> call_ok E (Suc (Suc (n_calls w))))"
  shows "\<exists>w'. worker_serve rounds fuel client_fd pool E w =
      Ret ((Some Returned_NULL, add_active (if call_ok E (Suc (n_calls w)) then 1 else 0) pool), w') \<and>
    open_fds w' = open_fds w \<and> trace w' = trace w"
proof -
  have "add_active 0 pool = pool" by (simp add: add_active_def)
  then have "wp (worker_serve rounds fuel client_fd pool)
      (\<lambda>r w'. r = (Some Returned_NULL, add_active (if call_ok E (Suc (n_calls w)) then 1 else 0) pool) \<and>
        open_fds w' = open_fds w \<and> trace w' = trace w) E w"
    using assms by (auto simp: worker_serve_def wp_simps EINVAL_def)
  then show ?thesis by (elim wpE) auto
qed

theorem failing_mutex_abandons_the_client_witness:
  "\<exists>E w'. worker_serve 40 40 7 demo_pool E demo_world = Ret ((Some Returned_NULL, add_active 1 demo_pool), w') \<and>
     open_fds w' = {7} \<and> trace w' = []"
  using failing_mutex_abandons_the_client [of "demo_env\<lparr>call_ok := (\<lambda>k. k < 2)\<rparr>" demo_world 40 40 7 demo_pool]
  by auto

end
