(* ===== verification/Worker_Steps.thy ===== *)
theory Worker_Steps
  imports Worker_Loop Pool_Runs
begin

text \<open>
  The two models of a worker together: a run of \<open>_worker_function\<close> as the theory on the worker's loop computes it is an
  execution of the interleaved pool, in which only this worker moves.
\<close>

text \<open>A worker serves the connections \<open>fds\<close>, one after the other, on the way from \<open>s\<close> to \<open>s'\<close>.\<close>

fun serves_in_turn :: "nat \<Rightarrow> int list \<Rightarrow> pool_state \<Rightarrow> pool_state \<Rightarrow> bool" where
  "serves_in_turn i [] s s' \<longleftrightarrow> s' = s"
| "serves_in_turn i (fd # fds) s s' \<longleftrightarrow> (\<exists>t u. pool_step\<^sup>*\<^sup>* s t \<and> stands t i Serving \<and> client (workers t ! i) = fd \<and>
     fd \<in> open_conns t \<and> n_active t = n_active s + 1 \<and>
     pool_step\<^sup>*\<^sup>* t u \<and> stands u i Accepting \<and> fd \<notin> open_conns u \<and> n_active u = n_active s \<and> serves_in_turn i fds u s')"

lemma serves_in_turn_steps: "serves_in_turn i fds s s' \<Longrightarrow> pool_step\<^sup>*\<^sup>* s s'"
  by (induction fds arbitrary: s) (auto intro: rtranclp_trans)

text \<open>What the two models say of the pool is the same, for the worker \<open>i\<close> while it waits for a connection and nobody has
  asked it to end.\<close>

definition linked :: "nat \<Rightarrow> ThreadPool \<Rightarrow> world \<Rightarrow> pool_state \<Rightarrow> bool" where
  "linked i pool w s \<longleftrightarrow> stands s i Accepting \<and> mutex s = None \<and> owner_at s \<noteq> Freed \<and> i \<notin> signalled s \<and> i \<notin> cancelled s \<and>
     n_active s = n_active_threads pool \<and> open_conns s \<subseteq> {fd \<in> open_fds w. fd < next_fd w}"

definition idle_again :: "nat \<Rightarrow> pool_state \<Rightarrow> pool_state \<Rightarrow> bool" where
  "idle_again i s s' \<longleftrightarrow> stands s' i Accepting \<and> mutex s' = None \<and> owner_at s' \<noteq> Freed \<and>
     signalled s' = signalled s \<and> cancelled s' = cancelled s \<and> n_active s' = n_active s \<and>
     open_conns s' = open_conns s"

lemma serves_all:
  "stands s i Accepting \<Longrightarrow> mutex s = None \<Longrightarrow> owner_at s \<noteq> Freed \<Longrightarrow> i \<notin> signalled s \<Longrightarrow> i \<notin> cancelled s \<Longrightarrow>
   \<forall>fd \<in> set fds. 0 \<le> fd \<and> fd \<notin> open_conns s \<Longrightarrow>
   \<exists>s'. serves_in_turn i fds s s' \<and> idle_again i s s'"
proof (induction fds arbitrary: s)
  case Nil
  then show ?case by (simp add: idle_again_def)
next
  case (Cons fd fds)
  let ?t = "s\<lparr>workers := (workers s)[i := \<lparr>worker_at = Serving, client = fd\<rparr>],
    n_active := n_active s + 1, open_conns := insert fd (open_conns s)\<rparr>"
  let ?u = "?t\<lparr>workers := (workers ?t)[i := \<lparr>worker_at = Accepting, client = fd\<rparr>],
    n_active := n_active ?t - 1, open_conns := open_conns ?t - {fd}\<rparr>"
  have i: "i < length (workers s)" using Cons.prems(1) by (simp add: stands_def)
  have fd: "0 \<le> fd" "fd \<notin> open_conns s" using Cons.prems(6) by simp_all
  have t: "pool_step\<^sup>*\<^sup>* s ?t" by (rule steps_serving [OF Cons.prems(1,2) fd Cons.prems(3)])
  have u: "pool_step\<^sup>*\<^sup>* ?t ?u" by (rule steps_idle_again) (use i Cons.prems(2-5) in simp_all)
  obtain s' where s': "serves_in_turn i fds ?u s'" "idle_again i ?u s'"
    using Cons.IH [of ?u] i Cons.prems(2-6) by (auto simp: stands_def)
  have "serves_in_turn i (fd # fds) s s'"
    unfolding serves_in_turn.simps
    by (intro exI [of _ ?t] exI [of _ ?u] conjI t u s'(1)) (use i in \<open>simp_all add: stands_def\<close>)
  moreover have "idle_again i s s'" using s'(2) fd(2) by (simp add: idle_again_def)
  ultimately show ?case by blast
qed

lemma linked_after:
  assumes "linked i pool w s" and "idle_again i s s'" and "all_answered a cs fds w w'"
  shows "linked i pool w' s'"
proof -
  have "fd \<in> open_fds w' \<and> fd < next_fd w'" if "fd \<in> open_fds w" "fd < next_fd w" for fd
  proof -
    have "fd \<notin> set fds" using assms(3) that(2) by (auto simp: all_answered_def)
    then show ?thesis using assms(3) that by (auto simp: all_answered_def untouched_def)
  qed
  then show ?thesis using assms(1,2) by (auto simp: linked_def idle_again_def)
qed



end
