(* ===== verification/Spec2Isabelle.thy ===== *)
theory Spec2Isabelle
  imports Server Daemon Pool_Shutdown Pool_Kill Response_Gaps Worker_Steps
begin

text \<open>
  Rask, a small web server in C, modelled function by function from src/ and verified.

  \<^bold>\<open>The program.\<close> \<open>main\<close> (src/server.c) loads the configuration (src/config_parser.c, with libconfuse), opens the
  listening socket (srclib/socket), starts a pool of threads (src/thread_pool.c) and waits for a signal. Each worker of the
  pool accepts connections and serves one at a time: \<open>connection_handler\<close> (src/connection_handler.c) reads and parses a
  request (src/request.c, with picohttpparser), and one of the functions of src/response.c answers it with an error page, a
  file, or the output of a script that srclib/execute_scripts runs in a child process. Answers are put together in a
  growing buffer (srclib/dynamic_buffer). A watcher thread makes the pool larger or smaller with the load. Everything
  writes to the log (srclib/logging). srclib/daemon is not called by the server.

  \<^bold>\<open>The model.\<close> \<open>Prelude\<close> has the C types, the outcome of a run (a value, undefined behaviour, or not finished)
  and the lemmas on words and lists the other theories share. \<open>Machine\<close> has the environment \<open>env\<close>, which answers every call that leaves
  the repository (the kernel, the clock, the file system, the allocator, scripts, libconfuse, picohttpparser), the state
  \<open>world\<close> of the process (heap blocks, descriptors, what is still to be read from each, the log, and the \<open>trace\<close> of
  calls with an outside effect), and programs over the two. A C function is a definition with its name (less a leading
  underscore); its statements are in the order of the source, and every early return and error path is a branch. The weakest precondition \<open>wp\<close> is
  total: it asserts that the program returns, without undefined behaviour. \<open>Demo\<close> is the concrete environment at
  which the properties with hypotheses are applied.

  \<^item> \<open>Logging\<close>: srclib/logging/logging.c. The global \<open>log_limit\<close> and the lines written are fields of \<open>world\<close>.
  \<^item> \<open>Cstring\<close>: srclib/string, and what <string.h> and <stdio.h> do. A pointer is the bytes from its address to the end of
    the object, so that a read beyond it is an outcome. Both comparisons are shown to be equality of the denoted strings, for
    sizes that their 32-bit index can count; beyond these the comparison of equal strings does not end.
  \<^item> \<open>Socket\<close>: srclib/socket/socket.c, every function.
  \<^item> \<open>Byte_Sink\<close>: the interface of a byte buffer as a locale; \<open>Dynamic_Buffer\<close>: srclib/dynamic_buffer, every
    operation, with 64-bit sizes that wrap, and the interpretation of the locale. The response theories use its facts.
  \<^item> \<open>Execute_Scripts\<close>: srclib/execute_scripts, the father, and the child up to \<open>execlp\<close>.
  \<^item> \<open>Config_Parser\<close>: src/config_parser.c, with the options a file may leave out.
  \<^item> \<open>Request\<close>: src/request.c and include/request.h: reading until the parser is content, the checks of the path, the arguments,
    the body, and the search for a header. \<open>process_post\<close> is its specification.
  \<^item> \<open>Http_Date\<close>: \<open>gmtime\<close> and \<open>strftime\<close> as src/response.c uses them. \<open>Response\<close>: src/response.c, every function.
    \<open>Response_Facts\<close> has the bytes of every answer and the lemmas for each function, \<open>Response_Total\<close> the
    predicate \<open>an_answer\<close> of the complete answers (an error page, a whole file, the output of a script and so on, each with the length it
    announces) and that every branch returns with at most one of them on the client's descriptor, \<open>Response_Properties\<close> the properties, and
    \<open>Response_Gaps\<close> the inputs the code does not provide for, with the variant of \<open>_response_cgi\<close> for macOS.
  \<^item> \<open>Connection_Handler\<close>: src/connection_handler.c, and what handling one request may change (\<open>handled\<close>).
  \<^item> \<open>Worker\<close>: the loop of \<open>_worker_function\<close> over the requests of one client, \<open>_soft_kill\<close> and \<open>_cleanup_handler\<close>.
    \<open>Worker_Loop\<close>: the whole of \<open>_worker_function\<close>, for the connections that the kernel hands to one worker.
  \<^item> \<open>Thread_Pool\<close>: the rest of src/thread_pool.c as its owner sees it; \<open>Pool_Properties\<close>: starting, failing to start, the
    turns of the watcher with their invariant \<open>pool_ok\<close>, and the destruction.
  \<^item> \<open>Server\<close>: src/server.c, from start to exit code.
  \<^item> \<open>Transition_System\<close>: reachability, invariants and simulations as locales, and how often a rank can fall.
    \<open>Pool_Concurrency\<close>: the workers,
    the watcher and the destruction running together, a step relation for each of the three functions with one atomic step
    for each access to shared state, with soft kills and cancellations, as a simulation of a counter that is changed together with the set of busy workers. \<open>Pool_Runs\<close>:
    runs of one thread at a time, from which reachable states are put together. \<open>Pool_Shutdown\<close>: what the destruction
    waits for, in which order and whether it ends, with an invariant of its own and a rank for each worker's way to its end.
    \<open>Pool_Kill\<close>: how far a thread that was sent the signal or was cancelled is from its end.
    \<open>Worker_Steps\<close>: a run of the sequential \<open>_worker_function\<close> is an execution of this interleaved model.
  \<^item> \<open>Daemon\<close>: srclib/daemon/daemon.c, as each of the three processes runs it.

  \<^bold>\<open>What the theorems show.\<close> Going up the call graph: the buffer holds exactly what was appended, or says that it does not;
  \<open>request_process\<close> loses no byte and returns the slices the parser found, for every way the bytes may arrive; a path it accepts
  has no two dots in a row, so that the name of the file stays below the base path; \<open>response_get\<close> sends the whole file; each
  request that is handled to the end is answered by one whole answer, of a known form; a worker serves any sequence of clients that close their side, and
  closes every connection; the pool stays within its bounds, settles under a constant load, and counts
  its busy workers correctly in every interleaving; a thread that is killed moves on at most 13
  times and accepts at most one more client; the destruction frees the pool only when the threads of the array have ended, and
  can always be brought to its end; and \<open>main\<close> ends with everything released. Next to these stand
  the properties that say where the code does not do this: reads outside an array, a failed
  allocation or \<open>fork\<close> that leaks, signals that are lost, descriptors closed by the wrong thread, a file that shrinks while
  it is sent, a watcher that uses the pool after it was freed.

  \<^bold>\<open>Bounds.\<close> A loop or recursion of the source without a bound of its own takes a number of rounds, and ends
  \<open>Unfinished\<close> when they do not suffice. The reads of \<open>request_process\<close>, of \<open>dynamic_buffer_append_fd\<close> and of a whole
  connection need one round more than the reads the environment has left (\<open>reads_left\<close>); sending a file of \<open>n\<close> bytes at most
  \<open>2 * n + 1\<close>; an error page one more than the sends that are refused before one is accepted. Each of these is a
  hypothesis of the form \<open>\<dots> < fuel\<close> from which the theorem concludes that the code returns; where no
  number of rounds suffices (error pages when every send is refused, a wait that no signal ends, a file
  that has become shorter), the theorem says so for all.

  \<^bold>\<open>Hypotheses on code outside src/.\<close> \<open>phr_contract\<close>, \<open>parser_finds_headers\<close> and \<open>parser_needs_room\<close> for
  picohttpparser; \<open>complete_file\<close> for what libconfuse finds; \<open>alloc_ok\<close>, \<open>calls_ok\<close>, \<open>full_sends\<close>,
  \<open>files_ok\<close>, \<open>stable_file\<close> and \<open>scripts_end\<close> for the machine, where a theorem is about runs in which it does its part. Each
  holds of the environment of \<open>Demo\<close>.

  \<^bold>\<open>Not modelled.\<close> The arguments of format strings in log messages (a message is kept as its format);
  the program that replaces the child of \<open>_execute_script\<close>, whose output is the
  environment's; signals that arrive before \<open>main\<close> has installed its handlers. The sequential theories give a new number to
  every descriptor; that the kernel uses the number of a closed one again is modelled in the interleaved theory, where it
  matters. In the interleaved theory a cancellation takes effect in \<open>accept\<close>, while a worker serves or closes, and in \<open>usleep\<close>;
  left out are the log calls as cancellation points, failures of the mutex and of \<open>pthread_sigmask\<close> (the theory on the worker's
  loop has them), what a worker does while it serves (the theory on the worker), and the single steps of the watcher and of
  the destruction while they hold \<open>watcher_mutex\<close>. The build files, the test client, the pages and scripts under www/ and the
  installation files hold no code of the server.
\<close>

end
